theory Spec2Isabelle
  imports Main "HOL-Library.Sublist"
begin

section \<open>Python string operations\<close>

text \<open>
  The parser of \<^verbatim>\<open>filing_sections.py\<close> works on Python strings. They are modelled as
  \<^typ>\<open>string\<close>, and the character classes are those of Python on ASCII text:
  \<^verbatim>\<open>str.isspace\<close> holds of the ten ASCII whitespace characters, \<^verbatim>\<open>str.isdigit\<close> of
  \<^verbatim>\<open>0\<close> to \<^verbatim>\<open>9\<close>, and \<^verbatim>\<open>str.lower\<close>/\<^verbatim>\<open>str.upper\<close> map the 26 letters and leave every
  other character as it is. \<^verbatim>\<open>sub in s\<close> is \<^term>\<open>sublist sub s\<close>.
\<close>

definition isspace :: "char \<Rightarrow> bool" where
  "isspace c = (c \<in> set [CHR 0x09, CHR 0x0A, CHR 0x0B, CHR 0x0C, CHR 0x0D,
                          CHR 0x1C, CHR 0x1D, CHR 0x1E, CHR 0x1F, CHR 0x20])"

definition isdigit :: "char \<Rightarrow> bool" where
  "isdigit c = (c \<in> set ''0123456789'')"

definition lower_char :: "char \<Rightarrow> char" where
  "lower_char c =
     (case map_of (zip ''ABCDEFGHIJKLMNOPQRSTUVWXYZ'' ''abcdefghijklmnopqrstuvwxyz'') c of
        Some d \<Rightarrow> d | None \<Rightarrow> c)"

definition upper_char :: "char \<Rightarrow> char" where
  "upper_char c =
     (case map_of (zip ''abcdefghijklmnopqrstuvwxyz'' ''ABCDEFGHIJKLMNOPQRSTUVWXYZ'') c of
        Some d \<Rightarrow> d | None \<Rightarrow> c)"

definition lower :: "string \<Rightarrow> string" where
  "lower s = map lower_char s"

definition upper :: "string \<Rightarrow> string" where
  "upper s = map upper_char s"

text \<open>\<^verbatim>\<open>s.strip()\<close>: leading and trailing whitespace removed.\<close>

definition strip :: "string \<Rightarrow> string" where
  "strip s = rev (dropWhile isspace (rev (dropWhile isspace s)))"

text \<open>\<^verbatim>\<open>s.split('\n')\<close>: always at least one line.\<close>

definition NL :: char where
  "NL = CHR 0x0A"

fun split_nl :: "string \<Rightarrow> string list" where
  "split_nl [] = [[]]"
| "split_nl (c # cs) =
     (if c = NL then [] # split_nl cs
      else (case split_nl cs of [] \<Rightarrow> [[c]] | l # ls \<Rightarrow> (c # l) # ls))"

text \<open>\<^verbatim>\<open>sep.join(xs)\<close> and \<^verbatim>\<open>'\n'.join(xs)\<close>.\<close>

fun join :: "string \<Rightarrow> string list \<Rightarrow> string" where
  "join sep [] = []"
| "join sep [x] = x"
| "join sep (x # y # ys) = x @ sep @ join sep (y # ys)"

definition join_nl :: "string list \<Rightarrow> string" where
  "join_nl xs = join [NL] xs"

text \<open>\<^verbatim>\<open>any(k in s for k in ks)\<close> and \<^verbatim>\<open>sum(1 for k in ks if k in s)\<close>.\<close>

definition any_in :: "string list \<Rightarrow> string \<Rightarrow> bool" where
  "any_in ks s = list_ex (\<lambda>k. sublist k s) ks"

definition count_in :: "string list \<Rightarrow> string \<Rightarrow> nat" where
  "count_in ks s = length (filter (\<lambda>k. sublist k s) ks)"

text \<open>
  \<^verbatim>\<open>s.find(sub)\<close> and \<^verbatim>\<open>s.find(sub, start)\<close> for \<^verbatim>\<open>start >= 0\<close>: the lowest index at which
  \<^verbatim>\<open>sub\<close> occurs, \<^term>\<open>None\<close> for Python's \<^verbatim>\<open>-1\<close>.
\<close>

fun str_find :: "string \<Rightarrow> string \<Rightarrow> nat option" where
  "str_find [] sub = (if sub = [] then Some 0 else None)"
| "str_find (c # cs) sub =
     (if prefix sub (c # cs) then Some 0 else map_option Suc (str_find cs sub))"

definition str_find_from :: "string \<Rightarrow> string \<Rightarrow> nat \<Rightarrow> nat option" where
  "str_find_from s sub start =
     (if length s < start then None
      else map_option (\<lambda>i. start + i) (str_find (drop start s) sub))"

text \<open>\<^verbatim>\<open>s[a:b]\<close> for \<^verbatim>\<open>0 <= a\<close> and \<^verbatim>\<open>0 <= b\<close>.\<close>

definition slice :: "'a list \<Rightarrow> nat \<Rightarrow> nat \<Rightarrow> 'a list" where
  "slice s a b = take (b - a) (drop a s)"


section \<open>Data model\<close>

datatype SectionType = TEXT | TABLE | CHART | FINANCIAL_STATEMENT | EXHIBIT

text \<open>
  \<^verbatim>\<open>VisualElement\<close>; its fields carry the prefix \<^verbatim>\<open>ve_\<close> to keep them apart from
  those of \<^verbatim>\<open>FilingSection\<close>.
\<close>

record VisualElement =
  ve_section_id :: string
  ve_section_title :: string
  ve_element_type :: SectionType
  ve_page_number :: "int option"
  ve_description :: string
  ve_context :: string
  ve_image_data :: "string option"
  ve_extracted_text :: "string option"

datatype FilingSection = FilingSection
  (section_id: string)
  (title: string)
  (description: string)
  (purpose: string)
  (content: string)
  (visual_elements: "VisualElement list")
  (key_contents: "string list")
  (page_range: "(int \<times> int) option")
  (subsections: "(string \<times> FilingSection) list option")


section \<open>The table filters\<close>

text \<open>
  \<^verbatim>\<open>_extract_table_text\<close>, on the cell texts of the rows of a table (what
  \<^verbatim>\<open>cell.get_text()\<close> gives for each \<^verbatim>\<open>td\<close>/\<^verbatim>\<open>th\<close> of each \<^verbatim>\<open>tr\<close>).
\<close>

definition extract_table_text :: "string list list \<Rightarrow> string" where
  "extract_table_text rows =
     (let table_data = filter (\<lambda>row_text. strip row_text \<noteq> [])
                         (map (\<lambda>cells. join '' | '' (map strip cells)) rows)
      in join_nl (take 20 table_data))"

definition section_keywords :: "(string \<times> string list) list" where
  "section_keywords =
     [(''item_1a'', [''risk'', ''factor'', ''exposure'', ''impact'']),
      (''item_1'', [''business'', ''operation'', ''product'', ''service'', ''coverage'']),
      (''item_7'', [''year ended'', ''december'', ''million'', ''income'', ''revenue'', ''expense'',
                   ''prior accident'', ''development'', ''catastrophe'', ''loss'', ''ratio'', ''premium'']),
      (''item_5'', [''share'', ''stock'', ''dividend'', ''repurchase'', ''market'']),
      (''item_8'', [''balance sheet'', ''statement'', ''cash flow'', ''equity''])]"

definition is_section_relevant_table :: "string \<Rightarrow> string \<Rightarrow> bool" where
  "is_section_relevant_table table_text sid =
     (let text_lower = lower table_text in
      if sublist ''trading symbol'' text_lower \<and> sublist ''new york stock exchange'' text_lower
      then False
      else
        (let relevant_keywords = (case map_of section_keywords sid of None \<Rightarrow> [] | Some ks \<Rightarrow> ks) in
         if relevant_keywords = [] then True
         else 2 \<le> count_in relevant_keywords text_lower))"

definition financial_keywords :: "string list" where
  "financial_keywords =
     [''million'', ''billion'', ''thousand'', ''$'', ''percent'', ''%'',
      ''revenue'', ''income'', ''loss'', ''assets'', ''liabilities'',
      ''ratio'', ''premium'', ''claim'', ''underwriting'', ''investment'',
      ''year ended'', ''december'', ''quarter'', ''fiscal'']"

definition is_meaningful_table :: "string \<Rightarrow> bool" where
  "is_meaningful_table table_text =
     (if table_text = [] \<or> length table_text < 50 then False
      else
        (let lines = split_nl table_text;
             non_empty_lines = filter (\<lambda>line. strip line \<noteq> [] \<and> strip line \<noteq> ''|'') lines
         in if length non_empty_lines < 3 then False
            else
              (let text_lower = lower table_text;
                   keyword_count = count_in financial_keywords text_lower
               in if any_in [''annual report pursuant'', ''securities exchange act'',
                             ''check one'', ''commission file number''] text_lower
                  then False
                  else 2 \<le> keyword_count)))"


section \<open>The regulatory outline\<close>

record ItemInfo =
  item_title :: string
  item_purpose :: string
  item_parent :: "string option"
  item_key_metrics :: "string list option"

text \<open>
  An entry of \<^verbatim>\<open>FORM_10K_STRUCTURE\<close>: a part with its \<^verbatim>\<open>"sections"\<close>, or the
  \<^verbatim>\<open>"signatures"\<close> entry, which has a title and a purpose and no \<^verbatim>\<open>"sections"\<close>.
\<close>

datatype OutlineEntry =
  Part (part_title: string) (part_sections: "(string \<times> ItemInfo) list")
| Single (single_title: string) (single_purpose: string)

definition item :: "string \<Rightarrow> string \<Rightarrow> ItemInfo" where
  "item t p = \<lparr>item_title = t, item_purpose = p, item_parent = None, item_key_metrics = None\<rparr>"

definition child_item :: "string \<Rightarrow> string \<Rightarrow> string \<Rightarrow> ItemInfo" where
  "child_item t p par =
     \<lparr>item_title = t, item_purpose = p, item_parent = Some par, item_key_metrics = None\<rparr>"

definition FORM_10K_STRUCTURE :: "(string \<times> OutlineEntry) list" where
  "FORM_10K_STRUCTURE =
     [(''part_1'', Part ''Part I - Business Information''
        [(''item_1'', item ''Business'' ''Company operations and strategy''),
         (''item_1a'', child_item ''Risk Factors'' ''Material risks'' ''item_1''),
         (''item_1b'', child_item ''Unresolved Staff Comments'' ''SEC comments'' ''item_1''),
         (''item_1c'', child_item ''Cybersecurity'' ''Cyber risk management'' ''item_1''),
         (''item_2'', item ''Properties'' ''Physical assets''),
         (''item_3'', item ''Legal Proceedings'' ''Material litigation''),
         (''item_4'', item ''Mine Safety Disclosures'' ''Mining safety (if applicable)'')]),
      (''part_2'', Part ''Part II - Financial Information''
        [(''item_5'', item ''Market for Common Equity'' ''Stock and shareholder info''),
         (''item_6'', item ''Reserved'' ''Reserved section''),
         (''item_7'', \<lparr>item_title = ''Management'' @ [CHR 0x27] @ ''s Discussion and Analysis'',
                       item_purpose = ''Financial performance analysis'',
                       item_parent = None,
                       item_key_metrics = Some [''combined ratio'', ''underwriting'', ''revenue'', ''margins'']\<rparr>),
         (''item_7a'', child_item ''Market Risk Disclosures'' ''Market risk exposure'' ''item_7''),
         (''item_8'', item ''Financial Statements'' ''Audited financials''),
         (''item_9'', item ''Changes in Accountants'' ''Auditor changes''),
         (''item_9a'', child_item ''Controls and Procedures'' ''Internal controls'' ''item_9''),
         (''item_9b'', child_item ''Other Information'' ''Additional disclosures'' ''item_9''),
         (''item_9c'', child_item ''Foreign Jurisdiction Inspections'' ''Audit inspection issues'' ''item_9'')]),
      (''part_3'', Part ''Part III - Corporate Governance''
        [(''item_10'', item ''Directors and Officers'' ''Leadership information''),
         (''item_11'', item ''Executive Compensation'' ''Pay disclosures''),
         (''item_12'', item ''Security Ownership'' ''Stock ownership''),
         (''item_13'', item ''Related Transactions'' ''Related party deals''),
         (''item_14'', item ''Accountant Fees'' ''Auditor compensation'')]),
      (''part_4'', Part ''Part IV - Exhibits and Signatures''
        [(''item_15'', item ''Exhibits and Schedules'' ''Document index''),
         (''item_16'', item ''Form 10-K Summary'' ''Optional summary'')]),
      (''signatures'', Single ''Signatures'' ''Required signatures'')]"

text \<open>
  \<^verbatim>\<open>_get_section_description\<close>: the loop over \<^verbatim>\<open>FORM_10K_STRUCTURE.values()\<close>, which
  returns the purpose of the first part that has the section, and \<^verbatim>\<open>""\<close> when none has.
\<close>

fun description_loop :: "OutlineEntry list \<Rightarrow> string \<Rightarrow> string" where
  "description_loop [] sid = []"
| "description_loop (Part t secs # rest) sid =
     (case map_of secs sid of
        Some info \<Rightarrow> item_purpose info
      | None \<Rightarrow> description_loop rest sid)"
| "description_loop (Single t p # rest) sid = description_loop rest sid"

definition get_section_description :: "string \<Rightarrow> string" where
  "get_section_description sid = description_loop (map snd FORM_10K_STRUCTURE) sid"

definition get_section_purpose :: "string \<Rightarrow> string" where
  "get_section_purpose sid = get_section_description sid"

text \<open>
  The vocabulary of the outline: the identifiers of its parts, of their items, and
  \<^verbatim>\<open>signatures\<close>.
\<close>

definition outline_vocabulary :: "string list" where
  "outline_vocabulary =
     concat (map (\<lambda>(k, e). k # (case e of Part t secs \<Rightarrow> map fst secs | Single t p \<Rightarrow> []))
                 FORM_10K_STRUCTURE)"


section \<open>The parsed filing\<close>

text \<open>
  The \<^verbatim>\<open>structure\<close> of a parsed filing is a dictionary of dictionaries. A value of it is
  a dictionary that may hold a \<^verbatim>\<open>FilingSection\<close> under \<^verbatim>\<open>"section"\<close> and a dictionary of
  further values under \<^verbatim>\<open>"subsections"\<close>, or it is something else (\<open>NonDict\<close>), which
  the traversals skip. Dictionaries keep the order in which their keys were inserted.
\<close>

datatype Node =
  NonDict
| DictNode (node_section: "FilingSection option") (node_subsections: "(string \<times> Node) list option")

record ParsedFiling =
  filing_url :: string
  total_length :: nat
  cleaned_length :: nat
  "structure" :: "(string \<times> Node) list"
  parsing_method :: string
  chunks_processed :: nat

text \<open>\<^verbatim>\<open>d[k] = v\<close> on an insertion-ordered dictionary.\<close>

fun dict_set :: "(string \<times> 'v) list \<Rightarrow> string \<Rightarrow> 'v \<Rightarrow> (string \<times> 'v) list" where
  "dict_set [] k v = [(k, v)]"
| "dict_set ((k', v') # d) k v = (if k' = k then (k, v) # d else (k', v') # dict_set d k v)"


section \<open>The content preprocessor\<close>

record PreState =
  in_xbrl_section :: bool
  in_toc_section :: bool
  found_narrative_start :: bool
  cleaned_lines :: "string list"

definition xbrl_indicators :: "string list" where
  "xbrl_indicators = [''context id='', ''xbrl'', ''taxonomy'', ''namespace'', ''schema'', ''entity identifier'']"

definition xbrl_end_indicators :: "string list" where
  "xbrl_end_indicators = [''part i'', ''item 1'', ''business'', ''table of contents'']"

definition toc_indicators :: "string list" where
  "toc_indicators = [''table of contents'', ''index'', ''part i'', ''part ii'', ''part iii'']"

definition toc_narrative_indicators :: "string list" where
  "toc_narrative_indicators =
     [''forward-looking statements'', ''item 1.'', ''part i - item 1'', ''business'' @ [NL] @ ''the company'']"

definition alt_narrative_indicators :: "string list" where
  "alt_narrative_indicators =
     [''item 1. business'', ''part i - item 1'', ''underwriting for'', ''the company operates'']"

text \<open>One pass of the loop over the lines, on the loop's variables.\<close>

definition preprocess_line :: "PreState \<Rightarrow> string \<Rightarrow> PreState" where
  "preprocess_line st line =
     (let line_lower = lower (strip line) in
      if any_in xbrl_indicators line_lower then st\<lparr>in_xbrl_section := True\<rparr>
      else
        (let st1 = (if in_xbrl_section st \<and> any_in xbrl_end_indicators line_lower
                    then st\<lparr>in_xbrl_section := False\<rparr> else st)
         in if in_xbrl_section st1 then st1
            else if \<not> found_narrative_start st1 \<and> any_in toc_indicators line_lower
              then st1\<lparr>in_toc_section := True\<rparr>
            else if in_toc_section st1 then
              (if list_ex isdigit line \<and> length (strip line) < 100 then st1
               else if any_in toc_narrative_indicators line_lower \<and> 20 < length (strip line)
                 then st1\<lparr>in_toc_section := False, found_narrative_start := True,
                          cleaned_lines := cleaned_lines st1 @ [line]\<rparr>
               else st1)
            else if found_narrative_start st1
              then st1\<lparr>cleaned_lines := cleaned_lines st1 @ [line]\<rparr>
            else if any_in alt_narrative_indicators line_lower \<and> 15 < length (strip line)
              then st1\<lparr>found_narrative_start := True, cleaned_lines := cleaned_lines st1 @ [line]\<rparr>
            else st1))"

definition pre_init :: PreState where
  "pre_init = \<lparr>in_xbrl_section = False, in_toc_section = False,
               found_narrative_start = False, cleaned_lines = []\<rparr>"

definition position_words :: "string list" where
  "position_words = [''company'', ''business'', ''operations'', ''insurance'', ''financial'']"

definition position_hit :: "string \<Rightarrow> bool" where
  "position_hit line = (50 < length (strip line) \<and> any_in position_words (lower line))"

text \<open>
  The position-based approach. \<^verbatim>\<open>int(len(lines) * 0.2)\<close> is \<^term>\<open>length lines div 5\<close>:
  the double nearest to one fifth lies above it by less than \<open>2 * 10\<^sup>-\<^sup>1\<^sup>7\<close>, so for a length
  \<open>n\<close> below \<open>2\<^sup>5\<^sup>3\<close> the rounded product is at least \<open>n / 5\<close> and below the next integer.
\<close>

definition position_based :: "string list \<Rightarrow> string list \<Rightarrow> string list" where
  "position_based lines cleaned =
     (let start_pos = length lines div 5 in
      case List.find (\<lambda>i. position_hit (lines ! i))
             [start_pos ..< min (start_pos + 1000) (length lines)] of
        Some i \<Rightarrow> drop i lines
      | None \<Rightarrow> cleaned)"

definition preprocess_filing_content :: "string \<Rightarrow> string" where
  "preprocess_filing_content text_content =
     (let lines = split_nl text_content;
          st = foldl preprocess_line pre_init lines;
          cleaned = (if \<not> found_narrative_start st \<and> length (cleaned_lines st) < 1000
                     then position_based lines (cleaned_lines st)
                     else cleaned_lines st)
      in join_nl cleaned)"


section \<open>The chunk splitter\<close>

definition section_markers :: "string list" where
  "section_markers =
     [''PART I'', ''PART II'', ''PART III'', ''PART IV'',
      ''Item 1.'', ''Item 2.'', ''Item 3.'', ''Item 4.'', ''Item 5.'', ''Item 6.'', ''Item 7.'',
      ''Item 8.'', ''Item 9.'',
      ''Item 10.'', ''Item 11.'', ''Item 12.'', ''Item 13.'', ''Item 14.'', ''Item 15.'', ''Item 16.'',
      ''SIGNATURES'']"

definition is_section_break :: "string \<Rightarrow> bool" where
  "is_section_break line = any_in section_markers (upper (strip line))"

text \<open>One pass of the loop, on \<^verbatim>\<open>(chunks, current_chunk)\<close>.\<close>

definition split_line :: "int \<Rightarrow> string list \<times> string \<Rightarrow> string \<Rightarrow> string list \<times> string" where
  "split_line max_chunk_size st line =
     (case st of (chunks, current_chunk) \<Rightarrow>
        if max_chunk_size < int (length current_chunk) + int (length line)
           \<and> is_section_break line \<and> current_chunk \<noteq> []
        then (chunks @ [strip current_chunk], line @ [NL])
        else (chunks, current_chunk @ line @ [NL]))"

definition split_content_intelligently :: "string \<Rightarrow> int \<Rightarrow> string list" where
  "split_content_intelligently text_content max_chunk_size =
     (case foldl (split_line max_chunk_size) ([], []) (split_nl text_content) of
        (chunks, current_chunk) \<Rightarrow>
          if strip current_chunk \<noteq> [] then chunks @ [strip current_chunk] else chunks)"


section \<open>The preprocessor and the splitter on Unicode text\<close>

text \<open>
  The definitions above follow Python on ASCII text. On any text, a Python string is a
  list of code points, of a type \<^typ>\<open>'c\<close> that is left open, and what Python's string methods
  do with a code point is a parameter:
  \<^item> \<open>lit c\<close>: the code point of the ASCII character \<open>c\<close> of a literal of the source;
  \<^item> \<open>py_isspace\<close>: \<^verbatim>\<open>str.isspace\<close> of a code point, which is also what \<^verbatim>\<open>str.strip\<close> removes;
  \<^item> \<open>py_isdigit\<close>: \<^verbatim>\<open>str.isdigit\<close> of a code point;
  \<^item> \<open>py_lower\<close>, \<open>py_upper\<close>: \<^verbatim>\<open>str.lower\<close> and \<^verbatim>\<open>str.upper\<close> of a string.

  The preprocessor and the splitter are written once more over these parameters, line
  by line as above; \<open>ascii_python\<close> gives the ASCII functions back.
\<close>

record 'c Python =
  lit :: "char \<Rightarrow> 'c"
  py_isspace :: "'c \<Rightarrow> bool"
  py_isdigit :: "'c \<Rightarrow> bool"
  py_lower :: "'c list \<Rightarrow> 'c list"
  py_upper :: "'c list \<Rightarrow> 'c list"

definition ascii_python :: "char Python" where
  "ascii_python = \<lparr>lit = (\<lambda>c. c), py_isspace = isspace, py_isdigit = isdigit,
                    py_lower = lower, py_upper = upper\<rparr>"

definition literal :: "'c Python \<Rightarrow> string \<Rightarrow> 'c list" where
  "literal py s = map (lit py) s"

definition strip_u :: "'c Python \<Rightarrow> 'c list \<Rightarrow> 'c list" where
  "strip_u py s = rev (dropWhile (py_isspace py) (rev (dropWhile (py_isspace py) s)))"

fun split_on :: "'c \<Rightarrow> 'c list \<Rightarrow> 'c list list" where
  "split_on n [] = [[]]"
| "split_on n (c # cs) =
     (if c = n then [] # split_on n cs
      else (case split_on n cs of [] \<Rightarrow> [[c]] | l # ls \<Rightarrow> (c # l) # ls))"

fun join_on :: "'c list \<Rightarrow> 'c list list \<Rightarrow> 'c list" where
  "join_on sep [] = []"
| "join_on sep [x] = x"
| "join_on sep (x # y # ys) = x @ sep @ join_on sep (y # ys)"

definition split_nl_u :: "'c Python \<Rightarrow> 'c list \<Rightarrow> 'c list list" where
  "split_nl_u py s = split_on (lit py NL) s"

definition join_nl_u :: "'c Python \<Rightarrow> 'c list list \<Rightarrow> 'c list" where
  "join_nl_u py xs = join_on [lit py NL] xs"

definition any_in_u :: "'c Python \<Rightarrow> string list \<Rightarrow> 'c list \<Rightarrow> bool" where
  "any_in_u py ks s = list_ex (\<lambda>k. sublist (literal py k) s) ks"

text \<open>\<^verbatim>\<open>_split_content_intelligently\<close>.\<close>

definition is_section_break_u :: "'c Python \<Rightarrow> 'c list \<Rightarrow> bool" where
  "is_section_break_u py line = any_in_u py section_markers (py_upper py (strip_u py line))"

definition split_line_u ::
  "'c Python \<Rightarrow> int \<Rightarrow> 'c list list \<times> 'c list \<Rightarrow> 'c list \<Rightarrow> 'c list list \<times> 'c list" where
  "split_line_u py max_chunk_size st line =
     (case st of (chunks, current_chunk) \<Rightarrow>
        if max_chunk_size < int (length current_chunk) + int (length line)
           \<and> is_section_break_u py line \<and> current_chunk \<noteq> []
        then (chunks @ [strip_u py current_chunk], line @ [lit py NL])
        else (chunks, current_chunk @ line @ [lit py NL]))"

definition split_content_intelligently_u :: "'c Python \<Rightarrow> 'c list \<Rightarrow> int \<Rightarrow> 'c list list" where
  "split_content_intelligently_u py text_content max_chunk_size =
     (case foldl (split_line_u py max_chunk_size) ([], []) (split_nl_u py text_content) of
        (chunks, current_chunk) \<Rightarrow>
          if strip_u py current_chunk \<noteq> [] then chunks @ [strip_u py current_chunk] else chunks)"

text \<open>\<^verbatim>\<open>_preprocess_filing_content\<close>.\<close>

record 'c PreStateU =
  u_in_xbrl_section :: bool
  u_in_toc_section :: bool
  u_found_narrative_start :: bool
  u_cleaned_lines :: "'c list list"

definition preprocess_line_u :: "'c Python \<Rightarrow> 'c PreStateU \<Rightarrow> 'c list \<Rightarrow> 'c PreStateU" where
  "preprocess_line_u py st line =
     (let line_lower = py_lower py (strip_u py line) in
      if any_in_u py xbrl_indicators line_lower then st\<lparr>u_in_xbrl_section := True\<rparr>
      else
        (let st1 = (if u_in_xbrl_section st \<and> any_in_u py xbrl_end_indicators line_lower
                    then st\<lparr>u_in_xbrl_section := False\<rparr> else st)
         in if u_in_xbrl_section st1 then st1
            else if \<not> u_found_narrative_start st1 \<and> any_in_u py toc_indicators line_lower
              then st1\<lparr>u_in_toc_section := True\<rparr>
            else if u_in_toc_section st1 then
              (if list_ex (py_isdigit py) line \<and> length (strip_u py line) < 100 then st1
               else if any_in_u py toc_narrative_indicators line_lower \<and> 20 < length (strip_u py line)
                 then st1\<lparr>u_in_toc_section := False, u_found_narrative_start := True,
                          u_cleaned_lines := u_cleaned_lines st1 @ [line]\<rparr>
               else st1)
            else if u_found_narrative_start st1
              then st1\<lparr>u_cleaned_lines := u_cleaned_lines st1 @ [line]\<rparr>
            else if any_in_u py alt_narrative_indicators line_lower \<and> 15 < length (strip_u py line)
              then st1\<lparr>u_found_narrative_start := True,
                       u_cleaned_lines := u_cleaned_lines st1 @ [line]\<rparr>
            else st1))"

definition pre_init_u :: "'c PreStateU" where
  "pre_init_u = \<lparr>u_in_xbrl_section = False, u_in_toc_section = False,
                 u_found_narrative_start = False, u_cleaned_lines = []\<rparr>"

definition position_hit_u :: "'c Python \<Rightarrow> 'c list \<Rightarrow> bool" where
  "position_hit_u py line =
     (50 < length (strip_u py line) \<and> any_in_u py position_words (py_lower py line))"

definition position_scan_u :: "'c Python \<Rightarrow> 'c list list \<Rightarrow> nat option" where
  "position_scan_u py lines =
     (let start_pos = length lines div 5 in
      List.find (\<lambda>i. position_hit_u py (lines ! i))
        [start_pos ..< min (start_pos + 1000) (length lines)])"

definition position_based_u :: "'c Python \<Rightarrow> 'c list list \<Rightarrow> 'c list list \<Rightarrow> 'c list list" where
  "position_based_u py lines cleaned =
     (case position_scan_u py lines of
        Some i \<Rightarrow> drop i lines
      | None \<Rightarrow> cleaned)"

text \<open>The cleaned lines, before they are joined.\<close>

definition preprocess_lines_u :: "'c Python \<Rightarrow> 'c list list \<Rightarrow> 'c list list" where
  "preprocess_lines_u py lines =
     (let st = foldl (preprocess_line_u py) pre_init_u lines
      in if \<not> u_found_narrative_start st \<and> length (u_cleaned_lines st) < 1000
         then position_based_u py lines (u_cleaned_lines st)
         else u_cleaned_lines st)"

definition preprocess_filing_content_u :: "'c Python \<Rightarrow> 'c list \<Rightarrow> 'c list" where
  "preprocess_filing_content_u py text_content =
     join_nl_u py (preprocess_lines_u py (split_nl_u py text_content))"

text \<open>
  The tests of the preprocessor on one line: a machine-tagging indicator, a
  table-of-contents marker, and the alternative narrative start.
\<close>

definition xbrl_marker_u :: "'c Python \<Rightarrow> 'c list \<Rightarrow> bool" where
  "xbrl_marker_u py line = any_in_u py xbrl_indicators (py_lower py (strip_u py line))"

definition toc_marker_u :: "'c Python \<Rightarrow> 'c list \<Rightarrow> bool" where
  "toc_marker_u py line = any_in_u py toc_indicators (py_lower py (strip_u py line))"

definition alt_start_u :: "'c Python \<Rightarrow> 'c list \<Rightarrow> bool" where
  "alt_start_u py line =
     (any_in_u py alt_narrative_indicators (py_lower py (strip_u py line))
      \<and> 15 < length (strip_u py line))"


text \<open>The characters of a text that are not whitespace.\<close>

definition non_space :: "'c Python \<Rightarrow> 'c list \<Rightarrow> 'c list" where
  "non_space py s = filter (\<lambda>c. \<not> py_isspace py c) s"

text \<open>The non-whitespace characters held by the state of the splitter's loop.\<close>

definition held :: "'c Python \<Rightarrow> 'c list list \<times> 'c list \<Rightarrow> 'c list" where
  "held py st = non_space py (concat (fst st)) @ non_space py (snd st)"


section \<open>Parsing without the language model\<close>

definition mda_title :: string where
  "mda_title = ''Management'' @ [CHR 0x27] @ ''s Discussion and Analysis''"

definition fallback_parse_structure :: "string \<Rightarrow> (string \<times> Node) list" where
  "fallback_parse_structure text_content =
     (case str_find (lower text_content) (lower mda_title) of
        None \<Rightarrow> []
      | Some mda_start \<Rightarrow>
          (let mda_end = (case str_find_from (lower text_content) ''financial statements'' mda_start of
                            None \<Rightarrow> mda_start + 50000
                          | Some e \<Rightarrow> e);
               mda_content = slice text_content mda_start mda_end;
               filing_section = FilingSection ''item_7'' mda_title
                  (''Management'' @ [CHR 0x27] @ ''s analysis of financial performance'')
                  ''Financial performance analysis'' mda_content [] [] None None
           in [(''part_2'', DictNode None
                  (Some [(''item_7'', DictNode (Some filing_section) None)]))]))"


section \<open>Keyword search\<close>
















section \<open>Parsing with the language model\<close>

text \<open>
  What lies outside the repository is a parameter of the model. A call that may raise
  returns a \<open>Call\<close>.
\<close>

datatype 'a Call = Raises | Returns 'a

text \<open>The Pydantic models \<^verbatim>\<open>SectionFound\<close> (fields prefixed \<^verbatim>\<open>sf_\<close>) and \<^verbatim>\<open>ChunkAnalysis\<close>.\<close>

record SectionFound =
  sf_section_id :: string
  sf_part :: string
  sf_title :: string
  sf_content_start :: string
  sf_content_length :: int
  sf_contains_key_info :: "string list"

record ChunkAnalysis =
  sections_found :: "SectionFound list"
  chunk_summary :: string

text \<open>
  A content block of a response: a \<^verbatim>\<open>tool_use\<close> block with its name and its input, or
  any other block. The input is \<^term>\<open>None\<close> when \<^verbatim>\<open>ChunkAnalysis.model_validate\<close> raises
  on it.
\<close>

datatype ContentBlock =
  ToolUse (tool_name: string) (tool_input: "ChunkAnalysis option")
| OtherBlock

text \<open>
  The Anthropic client, by the two requests the parser makes while it maps chunks:
  \<^item> \<open>analyze_chunk n c\<close>: \<^verbatim>\<open>messages.create\<close> with the \<^verbatim>\<open>analyze_chunk\<close> tool, whose prompt
    is a fixed text around the chunk number \<open>n\<close> and the first 8000 characters \<open>c\<close> of
    the chunk; the answer is the list of content blocks;
  \<^item> \<open>find_boundary sid c\<close>: \<^verbatim>\<open>messages.create\<close> of \<^verbatim>\<open>_llm_find_section_boundary\<close>, whose
    prompt is a fixed text around the section identifier (and the next sections, which
    follow from it) and the first 8000 characters of the text; the answer is the list of
    the texts of the content blocks.
\<close>

record AnthropicClient =
  analyze_chunk :: "nat \<Rightarrow> string \<Rightarrow> ContentBlock list Call"
  find_boundary :: "string \<Rightarrow> string \<Rightarrow> string list Call"

text \<open>
  The libraries and the document tree:
  \<^item> \<open>get_text html\<close>: \<^verbatim>\<open>BeautifulSoup(html, 'html.parser').get_text(separator='\n', strip=True)\<close>;
  \<^item> \<open>re_search flags pattern s\<close>: \<^verbatim>\<open>re.search(pattern, s)\<close>, with
    \<^verbatim>\<open>re.IGNORECASE | re.MULTILINE\<close> when \<open>flags\<close> holds; the result is the start of the match;
  \<^item> \<open>find_visuals html url sid title\<close>: \<^verbatim>\<open>_find_visuals_for_section\<close> on the tree of the
    document. Its walk over the tree is not modelled; it may raise.
\<close>

record Libraries =
  get_text :: "string \<Rightarrow> string"
  re_search :: "bool \<Rightarrow> string \<Rightarrow> string \<Rightarrow> nat option"
  find_visuals :: "string \<Rightarrow> string \<Rightarrow> string \<Rightarrow> string \<Rightarrow> VisualElement list Call"

text \<open>\<^verbatim>\<open>s.isdigit()\<close> and \<^verbatim>\<open>int(s)\<close> on a string of digits.\<close>

definition str_isdigit :: "string \<Rightarrow> bool" where
  "str_isdigit s = (s \<noteq> [] \<and> list_all isdigit s)"

definition digit_value :: "char \<Rightarrow> nat" where
  "digit_value c = (case map_of (zip ''0123456789'' [0, 1, 2, 3, 4, 5, 6, 7, 8, 9]) c of
                      Some d \<Rightarrow> d | None \<Rightarrow> 0)"

definition int_of_digits :: "string \<Rightarrow> nat" where
  "int_of_digits s = foldl (\<lambda>n c. 10 * n + digit_value c) 0 s"

definition llm_find_section_boundary :: "AnthropicClient \<Rightarrow> string \<Rightarrow> string \<Rightarrow> string option" where
  "llm_find_section_boundary client chunk current_section_id =
     (case find_boundary client current_section_id (take 8000 chunk) of
        Raises \<Rightarrow> None
      | Returns texts \<Rightarrow>
          (case texts of
             [] \<Rightarrow> None
           | t # ts \<Rightarrow>
               (let boundary_result = strip t in
                if str_isdigit boundary_result then
                  (let boundary_pos = int_of_digits boundary_result in
                   if 0 < boundary_pos \<and> boundary_pos < length chunk then
                     (let section_content = strip (take boundary_pos chunk) in
                      if 500 \<le> length section_content then Some section_content else None)
                   else None)
                else None)))"

text \<open>The regular expressions are the source's; \<open>BS\<close> is the backslash.\<close>

definition BS :: string where
  "BS = [CHR 0x5C]"

definition next_section_patterns :: "string list" where
  "next_section_patterns =
     [BS @ ''n'' @ BS @ ''s*ITEM'' @ BS @ ''s+'' @ BS @ ''d+[A-Z]*'' @ BS @ ''.?'' @ BS @ ''s*[A-Z'' @ BS @ ''s]+'' @ BS @ ''n'',
      BS @ ''n'' @ BS @ ''s*Item'' @ BS @ ''s+'' @ BS @ ''d+[A-Z]*'' @ BS @ ''.?'' @ BS @ ''s*[A-Z'' @ BS @ ''s]+'' @ BS @ ''n'',
      BS @ ''n'' @ BS @ ''s*PART'' @ BS @ ''s+(I{1,4}|[1-4])'' @ BS @ ''s*'' @ BS @ ''n'',
      BS @ ''n'' @ BS @ ''s*Part'' @ BS @ ''s+(I{1,4}|[1-4])'' @ BS @ ''s*'' @ BS @ ''n'',
      BS @ ''n'' @ BS @ ''s*SIGNATURES'' @ BS @ ''s*'' @ BS @ ''n'',
      ''<[^>]*>'' @ BS @ ''s*ITEM'' @ BS @ ''s+'' @ BS @ ''d+[A-Z]*'',
      ''<[^>]*>'' @ BS @ ''s*Item'' @ BS @ ''s+'' @ BS @ ''d+[A-Z]*'']"

definition regex_find_section_boundary :: "Libraries \<Rightarrow> string \<Rightarrow> string \<Rightarrow> string" where
  "regex_find_section_boundary lib chunk sid =
     (let min_end_pos =
            foldl (\<lambda>min_end_pos pattern.
                     case re_search lib True pattern (drop 500 chunk) of
                       Some start \<Rightarrow> min min_end_pos (500 + start)
                     | None \<Rightarrow> min_end_pos)
                  (length chunk) next_section_patterns;
          section_content = strip (take min_end_pos chunk)
      in if 100 \<le> length section_content then section_content
         else strip (take (min 5000 (length chunk)) chunk))"

definition section_patterns :: "(string \<times> string list) list" where
  "section_patterns =
     [(''item_1a'', [''item'' @ BS @ ''s+1a'', ''risk'' @ BS @ ''s+factors'']),
      (''item_7'', [''item'' @ BS @ ''s+7'', ''management.*discussion.*analysis'', ''md&a'']),
      (''item_1'', [''item'' @ BS @ ''s+1[^a-z]'', BS @ ''bbusiness'' @ BS @ ''b'']),
      (''item_8'', [''item'' @ BS @ ''s+8'', ''financial'' @ BS @ ''s+statements''])]"

text \<open>
  The loop over the patterns of a section in \<^verbatim>\<open>_extract_section_content_from_chunk\<close>:
  the text from the first match of the first pattern that matches.
\<close>

fun pattern_loop :: "Libraries \<Rightarrow> string \<Rightarrow> string list \<Rightarrow> string option" where
  "pattern_loop lib chunk [] = None"
| "pattern_loop lib chunk (pattern # rest) =
     (case re_search lib False pattern (lower chunk) of
        Some start_pos \<Rightarrow> Some (strip (slice chunk start_pos (start_pos + 15000)))
      | None \<Rightarrow> pattern_loop lib chunk rest)"

definition section_id_fallback :: "Libraries \<Rightarrow> string \<Rightarrow> string \<Rightarrow> string" where
  "section_id_fallback lib chunk sid =
     (case (case map_of section_patterns sid of
              Some patterns \<Rightarrow> pattern_loop lib chunk patterns
            | None \<Rightarrow> None) of
        Some c \<Rightarrow> c
      | None \<Rightarrow> strip (take 10000 chunk))"

definition extract_section_content_from_chunk ::
  "Libraries \<Rightarrow> AnthropicClient option \<Rightarrow> string \<Rightarrow> SectionFound \<Rightarrow> string" where
  "extract_section_content_from_chunk lib client chunk section_info =
     (let content_start_hint = sf_content_start section_info;
          sid = sf_section_id section_info
      in if content_start_hint \<noteq> [] then
           (case str_find (lower chunk) (take 50 (lower content_start_hint)) of
              Some start_pos \<Rightarrow>
                (let chunk_from_start = slice chunk start_pos (start_pos + 50000);
                     llm_content =
                       (case client of
                          Some c \<Rightarrow>
                            if 1000 < length chunk_from_start
                            then llm_find_section_boundary c chunk_from_start sid
                            else None
                        | None \<Rightarrow> None)
                 in case llm_content of
                      Some section_content \<Rightarrow> section_content
                    | None \<Rightarrow>
                        (let section_content = regex_find_section_boundary lib chunk_from_start sid
                         in if section_content \<noteq> [] then section_content
                            else section_id_fallback lib chunk sid))
            | None \<Rightarrow> section_id_fallback lib chunk sid)
         else section_id_fallback lib chunk sid)"

text \<open>
  The state of the mapper: the dictionary \<^verbatim>\<open>parsed_sections\<close>, and the numbers of the
  chunks submitted to the language model so far.
\<close>

record MapperState =
  parsed_sections :: "(string \<times> Node) list"
  submitted :: "nat list"

text \<open>
  \<^verbatim>\<open>parsed_sections[part_id]["subsections"][section_id] = {"section": filing_section}\<close>,
  after \<^verbatim>\<open>parsed_sections[part_id] = {"subsections": {}}\<close> for a new part. Every value of
  \<^verbatim>\<open>parsed_sections\<close> comes from here and has its \<^verbatim>\<open>"subsections"\<close>; on any other value the
  lookup raises, which leaves the dictionary as it is.
\<close>

definition store_section ::
  "(string \<times> Node) list \<Rightarrow> string \<Rightarrow> string \<Rightarrow> FilingSection \<Rightarrow> (string \<times> Node) list" where
  "store_section ps part_id sid filing_section =
     (let ps1 = (if part_id \<notin> set (map fst ps)
                 then ps @ [(part_id, DictNode None (Some []))] else ps)
      in case map_of ps1 part_id of
           Some (DictNode sec (Some subs)) \<Rightarrow>
             dict_set ps1 part_id
               (DictNode sec (Some (dict_set subs sid (DictNode (Some filing_section) None))))
         | _ \<Rightarrow> ps1)"

text \<open>
  The marker before each description: the three characters U+00E2, U+20AC, U+00A2 of the
  source's string, by their UTF-8 bytes.
\<close>

definition bullet :: string where
  "bullet = [CHR 0xC3, CHR 0xA2, CHR 0xE2, CHR 0x82, CHR 0xAC, CHR 0xC2, CHR 0xA2]"

text \<open>
  The loop over \<^verbatim>\<open>chunk_analysis.sections_found\<close>. An exception (of the search for
  visuals) ends it with what was stored before.
\<close>

fun process_sections ::
  "Libraries \<Rightarrow> AnthropicClient \<Rightarrow> string \<Rightarrow> string \<Rightarrow> string \<Rightarrow> SectionFound list
     \<Rightarrow> (string \<times> Node) list \<Rightarrow> (string \<times> Node) list" where
  "process_sections lib client html url chunk [] ps = ps"
| "process_sections lib client html url chunk (section_info # rest) ps =
     (let sid = sf_section_id section_info;
          part_id = sf_part section_info;
          section_content = extract_section_content_from_chunk lib (Some client) chunk section_info
      in if section_content \<noteq> [] then
           (case find_visuals lib html url sid (sf_title section_info) of
              Raises \<Rightarrow> ps
            | Returns section_visuals \<Rightarrow>
                (let section_content1 =
                       (if section_visuals \<noteq> []
                        then section_content @ [NL, NL] @ ''[VISUAL CONTENT]'' @ [NL]
                               @ join_nl (map (\<lambda>visual. bullet @ '' '' @ ve_description visual)
                                              section_visuals)
                        else section_content);
                     filing_section = FilingSection sid (sf_title section_info)
                        (get_section_description sid) (get_section_purpose sid)
                        section_content1 section_visuals (sf_contains_key_info section_info)
                        None None
                 in process_sections lib client html url chunk rest
                      (store_section ps part_id sid filing_section)))
         else process_sections lib client html url chunk rest ps)"

text \<open>
  The loop over \<^verbatim>\<open>response.content\<close>: the first \<^verbatim>\<open>tool_use\<close> block named
  \<^verbatim>\<open>analyze_chunk\<close> is processed, and the loop stops there. An input that does not
  validate raises, which ends the chunk.
\<close>

fun process_blocks ::
  "Libraries \<Rightarrow> AnthropicClient \<Rightarrow> string \<Rightarrow> string \<Rightarrow> string \<Rightarrow> ContentBlock list
     \<Rightarrow> (string \<times> Node) list \<Rightarrow> (string \<times> Node) list" where
  "process_blocks lib client html url chunk [] ps = ps"
| "process_blocks lib client html url chunk (OtherBlock # rest) ps =
     process_blocks lib client html url chunk rest ps"
| "process_blocks lib client html url chunk (ToolUse n inp # rest) ps =
     (if n = ''analyze_chunk'' then
        (case inp of
           None \<Rightarrow> ps
         | Some chunk_analysis \<Rightarrow>
             process_sections lib client html url chunk (sections_found chunk_analysis) ps)
      else process_blocks lib client html url chunk rest ps)"

text \<open>The body of the loop over \<^verbatim>\<open>enumerate(chunks[:6])\<close>.\<close>

definition process_chunk ::
  "Libraries \<Rightarrow> AnthropicClient \<Rightarrow> string \<Rightarrow> string \<Rightarrow> MapperState \<Rightarrow> nat \<times> string \<Rightarrow> MapperState" where
  "process_chunk lib client html url st ic =
     (case ic of (i, chunk) \<Rightarrow>
        (let st1 = st\<lparr>submitted := submitted st @ [i + 1]\<rparr> in
         case analyze_chunk client (i + 1) (take 8000 chunk) of
           Raises \<Rightarrow> st1
         | Returns blocks \<Rightarrow>
             st1\<lparr>parsed_sections :=
                   process_blocks lib client html url chunk blocks (parsed_sections st1)\<rparr>))"

definition llm_parse_structure_pydantic ::
  "Libraries \<Rightarrow> AnthropicClient \<Rightarrow> string \<Rightarrow> string \<Rightarrow> string list \<Rightarrow> MapperState" where
  "llm_parse_structure_pydantic lib client html url chunks =
     foldl (process_chunk lib client html url)
           \<lparr>parsed_sections = [], submitted = []\<rparr>
           (enumerate 0 (take 6 chunks))"


section \<open>The parser\<close>

definition parse_structured_filing ::
  "Libraries \<Rightarrow> AnthropicClient option \<Rightarrow> string \<Rightarrow> string \<Rightarrow> ParsedFiling" where
  "parse_structured_filing lib anthropic_client filing_content url =
     (let text_content = get_text lib filing_content;
          cleaned_content = preprocess_filing_content text_content;
          chunks = split_content_intelligently cleaned_content 50000
      in \<lparr>filing_url = url,
          total_length = length text_content,
          cleaned_length = length cleaned_content,
          structure =
            (case anthropic_client of
               Some client \<Rightarrow>
                 parsed_sections (llm_parse_structure_pydantic lib client filing_content url chunks)
             | None \<Rightarrow> fallback_parse_structure cleaned_content),
          parsing_method = ''llm_driven_pydantic'',
          chunks_processed = length chunks\<rparr>)"

text \<open>The sections stored anywhere in a structure.\<close>

fun node_sections :: "Node \<Rightarrow> FilingSection list" where
  "node_sections NonDict = []"
| "node_sections (DictNode sec subs) =
     (case sec of Some section \<Rightarrow> [section] | None \<Rightarrow> [])
     @ (case subs of Some s \<Rightarrow> concat (map (\<lambda>kv. node_sections (snd kv)) s) | None \<Rightarrow> [])"

definition stored_sections :: "(string \<times> Node) list \<Rightarrow> FilingSection list" where
  "stored_sections struct = concat (map (\<lambda>kv. node_sections (snd kv)) struct)"


section \<open>An invariant of the mapper\<close>

text \<open>
  A property of filing sections holds of what the mapper builds from a section claim
  (\<open>built_ok\<close>), and of every claim the language model returns (\<open>oracle_ok\<close>).
\<close>

definition built_ok :: "(FilingSection \<Rightarrow> bool) \<Rightarrow> SectionFound \<Rightarrow> bool" where
  "built_ok P si = (\<forall>c v. P (FilingSection (sf_section_id si) (sf_title si)
        (get_section_description (sf_section_id si)) (get_section_purpose (sf_section_id si))
        c v (sf_contains_key_info si) None None))"

definition oracle_ok :: "(FilingSection \<Rightarrow> bool) \<Rightarrow> AnthropicClient \<Rightarrow> bool" where
  "oracle_ok P client = (\<forall>n c blocks inp si. analyze_chunk client n c = Returns blocks \<longrightarrow>
       ToolUse ''analyze_chunk'' (Some inp) \<in> set blocks \<longrightarrow> si \<in> set (sections_found inp) \<longrightarrow> built_ok P si)"

text \<open>Inputs for the examples: libraries that find nothing, and a language model that
  reports one section, in \<^verbatim>\<open>part_2\<close>, for every chunk.\<close>

definition plain_lib :: Libraries where
  "plain_lib = \<lparr>get_text = (\<lambda>html. html),
                 re_search = (\<lambda>flags pattern s. None),
                 find_visuals = (\<lambda>html url sid t. Returns [])\<rparr>"

definition one_section_client :: "string \<Rightarrow> AnthropicClient" where
  "one_section_client sid =
     \<lparr>analyze_chunk = (\<lambda>n c. Returns
          [ToolUse ''analyze_chunk''
             (Some \<lparr>sections_found =
                      [\<lparr>sf_section_id = sid, sf_part = ''part_2'', sf_title = ''Discussion'',
                        sf_content_start = [], sf_content_length = 0,
                        sf_contains_key_info = []\<rparr>],
                    chunk_summary = ''one section''\<rparr>)]),
      find_boundary = (\<lambda>sid c. Raises)\<rparr>"


text \<open>
  A filing of seven lines, each a section break of more than 50,000 characters that also
  starts the narrative. It has no markup, so its text is the filing itself.
\<close>

definition long_line :: string where
  "long_line = ''SIGNATURES the company operates '' @ replicate 50000 (CHR ''z'')"

definition seven_chunk_filing :: string where
  "seven_chunk_filing = join_nl (replicate 7 long_line)"






section \<open>The sections stored by the mapper\<close>

lemma stored_sections_append:
  "stored_sections (d @ e) = stored_sections d @ stored_sections e"
  by (simp add: stored_sections_def)

lemma node_sections_member:
  "(k, n) \<in> set d \<Longrightarrow> set (node_sections n) \<subseteq> set (stored_sections d)"
  by (auto simp: stored_sections_def)

lemma stored_sections_dict_set:
  "set (stored_sections (dict_set d k v)) \<subseteq> set (node_sections v) \<union> set (stored_sections d)"
proof (induction d)
  case Nil
  then show ?case by (simp add: stored_sections_def)
next
  case (Cons a d)
  obtain k' v' where a: "a = (k', v')" by (cases a)
  show ?case using Cons by (auto simp: a stored_sections_def)
qed

lemma subset_insert_chain: "A \<subseteq> insert x B \<Longrightarrow> B \<subseteq> C \<Longrightarrow> A \<union> C \<subseteq> insert x C"
  by auto

lemma stored_sections_store_section:
  "set (stored_sections (store_section ps part_id sid fs)) \<subseteq> insert fs (set (stored_sections ps))"
proof -
  define ps1 where "ps1 = (if part_id \<notin> set (map fst ps) then ps @ [(part_id, DictNode None (Some []))] else ps)"
  have ps1: "set (stored_sections ps1) = set (stored_sections ps)"
    by (simp add: ps1_def stored_sections_append) (simp add: stored_sections_def)
  have eq: "store_section ps part_id sid fs =
      (case map_of ps1 part_id of
           Some (DictNode sec (Some subs)) \<Rightarrow>
             dict_set ps1 part_id
               (DictNode sec (Some (dict_set subs sid (DictNode (Some fs) None))))
         | _ \<Rightarrow> ps1)"
    by (simp only: store_section_def Let_def ps1_def)
  show ?thesis
  proof (cases "map_of ps1 part_id")
    case None
    then have "store_section ps part_id sid fs = ps1" using eq by simp
    then show ?thesis using ps1 by auto
  next
    case (Some n)
    then have mem: "(part_id, n) \<in> set ps1" by (rule map_of_SomeD)
    show ?thesis
    proof (cases n)
      case NonDict
      then have "store_section ps part_id sid fs = ps1" using eq Some by simp
      then show ?thesis using ps1 by auto
    next
      case (DictNode sec subs)
      show ?thesis
      proof (cases subs)
        case None
        then have "store_section ps part_id sid fs = ps1"
          using eq \<open>map_of ps1 part_id = Some n\<close> DictNode by simp
        then show ?thesis using ps1 by auto
      next
        case (Some s)
        have old: "set (node_sections (DictNode sec (Some s))) \<subseteq> set (stored_sections ps1)"
          using mem unfolding DictNode Some by (rule node_sections_member)
        have new: "set (node_sections (DictNode sec (Some (dict_set s sid (DictNode (Some fs) None)))))
                     \<subseteq> insert fs (set (node_sections (DictNode sec (Some s))))"
          using stored_sections_dict_set[of s sid "DictNode (Some fs) None"]
          by (auto simp: stored_sections_def split: option.splits)
        have "store_section ps part_id sid fs =
                dict_set ps1 part_id (DictNode sec (Some (dict_set s sid (DictNode (Some fs) None))))"
          using \<open>map_of ps1 part_id = Some n\<close> DictNode Some eq by simp
        then have "set (stored_sections (store_section ps part_id sid fs))
            \<subseteq> set (node_sections (DictNode sec (Some (dict_set s sid (DictNode (Some fs) None)))))
                \<union> set (stored_sections ps1)"
          using stored_sections_dict_set[of ps1 part_id "DictNode sec (Some (dict_set s sid (DictNode (Some fs) None)))"]
          by simp
        also have "\<dots> \<subseteq> insert fs (set (stored_sections ps1))"
          by (rule subset_insert_chain[OF new old])
        finally show ?thesis using ps1 by simp
      qed
    qed
  qed
qed

lemma store_section_inv:
  assumes "\<forall>s \<in> set (stored_sections ps). P s" and "P fs"
  shows "\<forall>s \<in> set (stored_sections (store_section ps part_id sid fs)). P s"
proof
  fix s assume "s \<in> set (stored_sections (store_section ps part_id sid fs))"
  then have "s \<in> insert fs (set (stored_sections ps))"
    using stored_sections_store_section[of ps part_id sid fs] by (rule rev_subsetD)
  then show "P s" using assms by auto
qed

lemma process_sections_inv:
  assumes "\<forall>s \<in> set (stored_sections ps). P s"
    and "\<forall>si \<in> set infos. built_ok P si"
  shows "\<forall>s \<in> set (stored_sections (process_sections lib client html url chunk infos ps)). P s"
  using assms
proof (induction infos arbitrary: ps)
  case Nil
  then show ?case by simp
next
  case (Cons si rest)
  have rest: "\<forall>si \<in> set rest. built_ok P si" using Cons.prems(2) by simp
  have si: "built_ok P si" using Cons.prems(2) by simp
  show ?case
  proof (cases "extract_section_content_from_chunk lib (Some client) chunk si = []")
    case True
    then show ?thesis using Cons.IH[OF Cons.prems(1) rest] by (simp add: Let_def)
  next
    case False
    show ?thesis
    proof (cases "find_visuals lib html url (sf_section_id si) (sf_title si)")
      case Raises
      then show ?thesis using False Cons.prems(1) by (simp add: Let_def)
    next
      case (Returns vis)
      define fs where "fs = FilingSection (sf_section_id si) (sf_title si)
          (get_section_description (sf_section_id si)) (get_section_purpose (sf_section_id si))
          (if vis \<noteq> []
           then extract_section_content_from_chunk lib (Some client) chunk si @ [NL, NL] @ ''[VISUAL CONTENT]'' @ [NL]
                  @ join_nl (map (\<lambda>visual. bullet @ '' '' @ ve_description visual) vis)
           else extract_section_content_from_chunk lib (Some client) chunk si)
          vis (sf_contains_key_info si) None None"
      have "P fs" using si unfolding built_ok_def fs_def by (elim allE)
      then have inv: "\<forall>s \<in> set (stored_sections (store_section ps (sf_part si) (sf_section_id si) fs)). P s"
        by (rule store_section_inv[OF Cons.prems(1)])
      have "process_sections lib client html url chunk (si # rest) ps
          = process_sections lib client html url chunk rest (store_section ps (sf_part si) (sf_section_id si) fs)"
        using False Returns by (simp add: Let_def fs_def)
      then show ?thesis using Cons.IH[OF inv rest] by simp
    qed
  qed
qed

lemma process_blocks_inv:
  assumes "\<forall>s \<in> set (stored_sections ps). P s"
    and "\<forall>inp. ToolUse ''analyze_chunk'' (Some inp) \<in> set blocks \<longrightarrow> (\<forall>si \<in> set (sections_found inp). built_ok P si)"
  shows "\<forall>s \<in> set (stored_sections (process_blocks lib client html url chunk blocks ps)). P s"
  using assms
proof (induction blocks arbitrary: ps)
  case Nil
  then show ?case by simp
next
  case (Cons b rest)
  have rest: "\<forall>inp. ToolUse ''analyze_chunk'' (Some inp) \<in> set rest \<longrightarrow> (\<forall>si \<in> set (sections_found inp). built_ok P si)"
    using Cons.prems(2) by simp
  show ?case
  proof (cases b)
    case OtherBlock
    then show ?thesis using Cons.IH[OF Cons.prems(1) rest] by simp
  next
    case (ToolUse n inp)
    show ?thesis
    proof (cases "n = ''analyze_chunk''")
      case False
      then show ?thesis using ToolUse Cons.IH[OF Cons.prems(1) rest] by simp
    next
      case True
      show ?thesis
      proof (cases inp)
        case None
        then show ?thesis using True ToolUse Cons.prems(1) by simp
      next
        case (Some a)
        then have "\<forall>si \<in> set (sections_found a). built_ok P si"
          using Cons.prems(2) ToolUse True by simp
        then have "\<forall>s \<in> set (stored_sections (process_sections lib client html url chunk (sections_found a) ps)). P s"
          by (rule process_sections_inv[OF Cons.prems(1)])
        then show ?thesis using True ToolUse Some by simp
      qed
    qed
  qed
qed

lemma process_chunk_inv:
  assumes "\<forall>s \<in> set (stored_sections (parsed_sections st)). P s" and "oracle_ok P client"
  shows "\<forall>s \<in> set (stored_sections (parsed_sections (process_chunk lib client html url st ic))). P s"
proof -
  obtain i chunk where ic: "ic = (i, chunk)" by (cases ic)
  show ?thesis
  proof (cases "analyze_chunk client (i + 1) (take 8000 chunk)")
    case Raises
    then show ?thesis using assms(1) by (simp add: process_chunk_def ic)
  next
    case (Returns blocks)
    have "\<forall>inp. ToolUse ''analyze_chunk'' (Some inp) \<in> set blocks \<longrightarrow> (\<forall>si \<in> set (sections_found inp). built_ok P si)"
      using assms(2) Returns unfolding oracle_ok_def by blast
    then have "\<forall>s \<in> set (stored_sections (process_blocks lib client html url chunk blocks (parsed_sections st))). P s"
      by (rule process_blocks_inv[OF assms(1)])
    then show ?thesis using Returns by (simp add: process_chunk_def ic)
  qed
qed

lemma foldl_process_chunk_inv:
  assumes "\<forall>s \<in> set (stored_sections (parsed_sections st)). P s" and "oracle_ok P client"
  shows "\<forall>s \<in> set (stored_sections (parsed_sections (foldl (process_chunk lib client html url) st ics))). P s"
  using assms(1)
proof (induction ics arbitrary: st)
  case Nil
  then show ?case by simp
next
  case (Cons ic ics)
  have "\<forall>s \<in> set (stored_sections (parsed_sections (process_chunk lib client html url st ic))). P s"
    using Cons.prems assms(2) by (rule process_chunk_inv)
  then show ?case using Cons.IH by simp
qed

lemma llm_parse_inv:
  assumes "oracle_ok P client"
  shows "\<forall>s \<in> set (stored_sections (parsed_sections (llm_parse_structure_pydantic lib client html url chunks))). P s"
  unfolding llm_parse_structure_pydantic_def
  by (rule foldl_process_chunk_inv[OF _ assms]) (simp add: stored_sections_def)

lemma submitted_process_chunk:
  "submitted (process_chunk lib client html url st (i, chunk)) = submitted st @ [i + 1]"
  by (simp add: process_chunk_def Let_def split: Call.splits)

lemma submitted_foldl:
  "submitted (foldl (process_chunk lib client html url) st (enumerate n cs))
     = submitted st @ map Suc [n ..< n + length cs]"
proof (induction cs arbitrary: st n)
  case Nil
  then show ?case by simp
next
  case (Cons c cs)
  have "[n ..< Suc (n + length cs)] = n # [Suc n ..< Suc (n + length cs)]"
    by (rule upt_conv_Cons) simp
  then show ?case using Cons[of "process_chunk lib client html url st (n, c)" "Suc n"]
    by (simp add: submitted_process_chunk)
qed

lemma submitted_llm_parse:
  "submitted (llm_parse_structure_pydantic lib client html url chunks)
     = map Suc [0 ..< min 6 (length chunks)]"
  by (simp add: llm_parse_structure_pydantic_def submitted_foldl min.commute)

lemma purpose_eq: "get_section_purpose s = get_section_description s"
  by (simp add: get_section_purpose_def)

section \<open>Section identifiers and the outline\<close>

lemma pre_ex: "preprocess_filing_content ''the company operates here'' = ''the company operates here''"
  by code_simp

lemma split_ex: "split_content_intelligently ''the company operates here'' 50000 = [''the company operates here'']"
  by code_simp

lemma structure_parse_None:
  "structure (parse_structured_filing lib None html url)
     = fallback_parse_structure (preprocess_filing_content (get_text lib html))"
  by (simp add: parse_structured_filing_def Let_def)

lemma structure_parse_Some:
  "structure (parse_structured_filing lib (Some client) html url)
     = parsed_sections (llm_parse_structure_pydantic lib client html url
         (split_content_intelligently (preprocess_filing_content (get_text lib html)) 50000))"
  by (simp add: parse_structured_filing_def Let_def)

lemma parse_ex: "structure (parse_structured_filing plain_lib (Some (one_section_client sid)) ''the company operates here'' ''u'')
   = parsed_sections (llm_parse_structure_pydantic plain_lib (one_section_client sid) ''the company operates here'' ''u'' [''the company operates here''])"
  by (simp add: structure_parse_Some plain_lib_def pre_ex split_ex)

lemma llm_ex99: "map section_id (stored_sections (parsed_sections (llm_parse_structure_pydantic plain_lib (one_section_client ''item_99'') ''the company operates here'' ''u'' [''the company operates here'']))) = [''item_99'']"
  by code_simp

lemma llm_ex7: "map section_id (stored_sections (parsed_sections (llm_parse_structure_pydantic plain_lib (one_section_client ''item_7'') ''the company operates here'' ''u'' [''the company operates here'']))) = [''item_7'']"
  by code_simp

lemma item_7_in_vocabulary: "''item_7'' \<in> set outline_vocabulary"
  by code_simp

lemma item_99_not_in_vocabulary: "''item_99'' \<notin> set outline_vocabulary"
  by code_simp

lemma fallback_section_ids:
  "\<forall>s \<in> set (stored_sections (fallback_parse_structure t)). section_id s = ''item_7''"
proof (cases "str_find (lower t) (lower mda_title)")
  case None
  then show ?thesis by (simp add: fallback_parse_structure_def stored_sections_def)
next
  case (Some a)
  then show ?thesis by (simp add: fallback_parse_structure_def stored_sections_def Let_def)
qed

lemma map_singleton_mem: "map f xs = [y] \<Longrightarrow> \<exists>x \<in> set xs. f x = y"
  by (cases xs) auto

text \<open>
  C1, as amended. Every filing section stored in the structure of a parsed filing has an
  identifier of the outline's vocabulary, provided that every section identifier the
  language model reports in an \<^verbatim>\<open>analyze_chunk\<close> answer is one: the mapper stores the
  identifier it is given and does not compare it with the outline. With no language model
  the only identifier stored is \<^verbatim>\<open>item_7\<close>.
\<close>

theorem C1_section_ids_in_vocabulary:
  assumes "\<And>client n c blocks inp si.
      anthropic_client = Some client \<Longrightarrow> analyze_chunk client n c = Returns blocks \<Longrightarrow>
      ToolUse ''analyze_chunk'' (Some inp) \<in> set blocks \<Longrightarrow> si \<in> set (sections_found inp) \<Longrightarrow>
      sf_section_id si \<in> set outline_vocabulary"
  shows "\<forall>s \<in> set (stored_sections (structure (parse_structured_filing lib anthropic_client html url))).
           section_id s \<in> set outline_vocabulary"
proof (cases anthropic_client)
  case None
  show ?thesis
  proof
    fix s
    assume "s \<in> set (stored_sections (structure (parse_structured_filing lib anthropic_client html url)))"
    then have mem: "s \<in> set (stored_sections (fallback_parse_structure (preprocess_filing_content (get_text lib html))))"
      unfolding None structure_parse_None .
    have "section_id s = ''item_7''"
      by (rule bspec[OF fallback_section_ids mem])
    then show "section_id s \<in> set outline_vocabulary"
      using item_7_in_vocabulary by simp
  qed
next
  case (Some client)
  have "oracle_ok (\<lambda>s. section_id s \<in> set outline_vocabulary) client"
    unfolding oracle_ok_def built_ok_def using assms[OF Some] by simp
  then show ?thesis
    unfolding Some structure_parse_Some by (rule llm_parse_inv)
qed

theorem C1_section_ids_in_vocabulary_witness:
  "map section_id (stored_sections (structure (parse_structured_filing plain_lib
       (Some (one_section_client ''item_7'')) ''the company operates here'' ''u''))) = [''item_7'']
   \<and> ''item_7'' \<in> set outline_vocabulary"
proof -
  have h: "\<And>client n c blocks inp si.
      Some (one_section_client ''item_7'') = Some client \<Longrightarrow> analyze_chunk client n c = Returns blocks \<Longrightarrow>
      ToolUse ''analyze_chunk'' (Some inp) \<in> set blocks \<Longrightarrow> si \<in> set (sections_found inp) \<Longrightarrow>
      sf_section_id si \<in> set outline_vocabulary"
    using item_7_in_vocabulary by (auto simp: one_section_client_def)
  have all: "\<forall>s \<in> set (stored_sections (structure (parse_structured_filing plain_lib
       (Some (one_section_client ''item_7'')) ''the company operates here'' ''u''))).
           section_id s \<in> set outline_vocabulary"
    using h by (rule C1_section_ids_in_vocabulary)
  have ids: "map section_id (stored_sections (structure (parse_structured_filing plain_lib
       (Some (one_section_client ''item_7'')) ''the company operates here'' ''u''))) = [''item_7'']"
    by (simp only: parse_ex llm_ex7)
  obtain x where mem: "x \<in> set (stored_sections (structure (parse_structured_filing plain_lib
       (Some (one_section_client ''item_7'')) ''the company operates here'' ''u'')))"
      and x: "section_id x = ''item_7''"
    using map_singleton_mem[OF ids] by (elim bexE)
  have "section_id x \<in> set outline_vocabulary" by (rule bspec[OF all mem])
  then have "''item_7'' \<in> set outline_vocabulary" unfolding x .
  with ids show ?thesis by (rule conjI)
qed

theorem C1_unknown_identifier_counterexample:
  "\<not> (\<forall>s \<in> set (stored_sections (structure (parse_structured_filing plain_lib
          (Some (one_section_client ''item_99'')) ''the company operates here'' ''u''))).
        section_id s \<in> set outline_vocabulary)"
proof
  assume a: "\<forall>s \<in> set (stored_sections (structure (parse_structured_filing plain_lib
          (Some (one_section_client ''item_99'')) ''the company operates here'' ''u''))).
        section_id s \<in> set outline_vocabulary"
  have ids: "map section_id (stored_sections (structure (parse_structured_filing plain_lib
       (Some (one_section_client ''item_99'')) ''the company operates here'' ''u''))) = [''item_99'']"
    by (simp only: parse_ex llm_ex99)
  obtain x where mem: "x \<in> set (stored_sections (structure (parse_structured_filing plain_lib
       (Some (one_section_client ''item_99'')) ''the company operates here'' ''u'')))"
      and x: "section_id x = ''item_99''"
    using map_singleton_mem[OF ids] by (elim bexE)
  have "section_id x \<in> set outline_vocabulary" by (rule bspec[OF a mem])
  then have "''item_99'' \<in> set outline_vocabulary" unfolding x .
  with item_99_not_in_vocabulary show False by (rule notE)
qed


section \<open>Description and purpose\<close>

text \<open>
  C10. \<^verbatim>\<open>_get_section_purpose\<close> returns what \<^verbatim>\<open>_get_section_description\<close> returns, for every
  section identifier; and every filing section that the mapper driven by the language
  model stores has its description equal to its purpose.
\<close>

theorem C10_purpose_is_description:
  "get_section_purpose s = get_section_description s
   \<and> (\<forall>sec \<in> set (stored_sections (parsed_sections
            (llm_parse_structure_pydantic lib client html url chunks))).
        description sec = purpose sec)"
proof
  show "get_section_purpose s = get_section_description s" by (rule purpose_eq)
  have "oracle_ok (\<lambda>sec. description sec = purpose sec) client"
    by (simp add: oracle_ok_def built_ok_def purpose_eq)
  then show "\<forall>sec \<in> set (stored_sections (parsed_sections
            (llm_parse_structure_pydantic lib client html url chunks))).
        description sec = purpose sec"
    by (rule llm_parse_inv)
qed

lemma llm_ex7_description:
  "map description (stored_sections (parsed_sections (llm_parse_structure_pydantic plain_lib
       (one_section_client ''item_7'') ''the company operates here'' ''u'' [''the company operates here''])))
     = [''Financial performance analysis'']"
  by code_simp

theorem C10_purpose_is_description_witness:
  "map description (stored_sections (parsed_sections (llm_parse_structure_pydantic plain_lib
       (one_section_client ''item_7'') ''the company operates here'' ''u'' [''the company operates here''])))
     = [''Financial performance analysis'']
   \<and> map purpose (stored_sections (parsed_sections (llm_parse_structure_pydantic plain_lib
       (one_section_client ''item_7'') ''the company operates here'' ''u'' [''the company operates here''])))
     = [''Financial performance analysis'']"
proof -
  have "\<forall>sec \<in> set (stored_sections (parsed_sections (llm_parse_structure_pydantic plain_lib
       (one_section_client ''item_7'') ''the company operates here'' ''u'' [''the company operates here'']))).
       description sec = purpose sec"
    using C10_purpose_is_description[of "''item_7''" plain_lib "one_section_client ''item_7''"
        "''the company operates here''" "''u''" "[''the company operates here'']"]
    by (rule conjunct2)
  then have "map purpose (stored_sections (parsed_sections (llm_parse_structure_pydantic plain_lib
       (one_section_client ''item_7'') ''the company operates here'' ''u'' [''the company operates here''])))
     = map description (stored_sections (parsed_sections (llm_parse_structure_pydantic plain_lib
       (one_section_client ''item_7'') ''the company operates here'' ''u'' [''the company operates here''])))"
    by (intro map_cong refl) simp
  then show ?thesis using llm_ex7_description by (simp only: simp_thms)
qed


section \<open>The chunks of the splitter\<close>

lemma non_space_append: "non_space py (a @ b) = non_space py a @ non_space py b"
  by (simp add: non_space_def)

lemma non_space_dropWhile: "non_space py (dropWhile (py_isspace py) s) = non_space py s"
  by (induction s) (simp_all add: non_space_def)

lemma non_space_rev: "non_space py (rev s) = rev (non_space py s)"
  by (simp add: non_space_def rev_filter)

lemma non_space_strip: "non_space py (strip_u py s) = non_space py s"
  by (simp add: strip_u_def non_space_rev non_space_dropWhile)

lemma split_on_not_Nil: "split_on n t \<noteq> []"
  by (induction t) (auto split: list.splits)

lemma concat_split_on: "concat (split_on n t) = filter (\<lambda>c. c \<noteq> n) t"
proof (induction t)
  case Nil
  then show ?case by simp
next
  case (Cons c cs)
  then show ?case using split_on_not_Nil[of n cs]
    by (cases "split_on n cs") auto
qed

lemma non_space_concat_split:
  assumes "py_isspace py (lit py NL)"
  shows "non_space py (concat (split_nl_u py t)) = non_space py t"
proof -
  have "filter (\<lambda>c. \<not> py_isspace py c) (filter (\<lambda>c. c \<noteq> lit py NL) t)
          = filter (\<lambda>c. \<not> py_isspace py c) t"
    unfolding filter_filter by (rule filter_cong) (use assms in auto)
  then show ?thesis by (simp add: non_space_def split_nl_u_def concat_split_on)
qed

lemma held_split_line:
  assumes "py_isspace py (lit py NL)"
  shows "held py (split_line_u py m st line) = held py st @ non_space py line"
proof -
  have nl: "non_space py [lit py NL] = []" using assms by (simp add: non_space_def)
  show ?thesis
    by (cases st)
       (simp add: split_line_u_def held_def non_space_append non_space_strip nl)
qed

lemma held_foldl:
  assumes "py_isspace py (lit py NL)"
  shows "held py (foldl (split_line_u py m) st ls) = held py st @ non_space py (concat ls)"
proof (induction ls arbitrary: st)
  case Nil
  then show ?case by (simp add: non_space_def)
next
  case (Cons l ls)
  then show ?case by (simp add: held_split_line[OF assms] non_space_append)
qed

lemma non_space_split_content:
  assumes "py_isspace py (lit py NL)"
  shows "non_space py (concat (split_content_intelligently_u py t m)) = non_space py t"
proof -
  obtain chunks cur where st: "foldl (split_line_u py m) ([], []) (split_nl_u py t) = (chunks, cur)"
    by (cases "foldl (split_line_u py m) ([], []) (split_nl_u py t)")
  have "held py (chunks, cur) = held py ([], []) @ non_space py (concat (split_nl_u py t))"
    using held_foldl[OF assms, of m "([], [])" "split_nl_u py t"] by (simp only: st)
  then have h: "non_space py (concat chunks) @ non_space py cur = non_space py t"
    by (simp add: held_def non_space_concat_split[OF assms]) (simp add: non_space_def)
  show ?thesis
  proof (cases "strip_u py cur = []")
    case True
    then have "non_space py cur = []" using non_space_strip[of py cur] by (simp add: non_space_def)
    then show ?thesis using h True by (simp add: split_content_intelligently_u_def st)
  next
    case False
    then show ?thesis using h
      by (simp add: split_content_intelligently_u_def st non_space_append non_space_strip)
  qed
qed

lemma strip_eq_Nil: "(strip_u py s = []) = list_all (py_isspace py) s"
proof
  assume "strip_u py s = []"
  then have "non_space py s = []" using non_space_strip[of py s] by (simp add: non_space_def)
  then show "list_all (py_isspace py) s" by (simp add: non_space_def filter_empty_conv list_all_iff)
next
  assume "list_all (py_isspace py) s"
  then have "dropWhile (py_isspace py) s = []" by (induction s) simp_all
  then show "strip_u py s = []" by (simp only: strip_u_def dropWhile.simps rev.simps)
qed

lemma no_marker_in_empty: "\<not> any_in_u py section_markers []"
  by (simp add: any_in_u_def section_markers_def literal_def)

lemma not_break_blank:
  assumes "py_upper py [] = []" and "list_all (py_isspace py) line"
  shows "\<not> is_section_break_u py line"
  using strip_eq_Nil[of py line] assms by (simp add: is_section_break_u_def no_marker_in_empty)

lemma foldl_blank_lines:
  assumes up: "py_upper py [] = []" and nl: "py_isspace py (lit py NL)"
  shows "\<forall>l \<in> set ls. list_all (py_isspace py) l \<Longrightarrow> list_all (py_isspace py) cur \<Longrightarrow>
   \<exists>cur'. foldl (split_line_u py m) ([], cur) ls = ([], cur') \<and> list_all (py_isspace py) cur'"
proof (induction ls arbitrary: cur)
  case Nil
  then show ?case by simp
next
  case (Cons l ls)
  have l: "list_all (py_isspace py) l" using Cons.prems(1) by simp
  have step: "split_line_u py m ([], cur) l = ([], cur @ l @ [lit py NL])"
    using not_break_blank[OF up l] by (simp add: split_line_u_def)
  have "list_all (py_isspace py) (cur @ l @ [lit py NL])" using l Cons.prems(2) nl by simp
  then have "\<exists>cur'. foldl (split_line_u py m) ([], cur @ l @ [lit py NL]) ls = ([], cur')
      \<and> list_all (py_isspace py) cur'"
    using Cons.IH Cons.prems(1) by simp
  then show ?case by (simp add: step)
qed

lemma split_on_lines_subset: "l \<in> set (split_on n t) \<Longrightarrow> set l \<subseteq> set t"
proof (induction t arbitrary: l)
  case Nil
  then show ?case by simp
next
  case (Cons c cs)
  show ?case
  proof (cases "c = n")
    case True
    then show ?thesis using Cons by auto
  next
    case False
    obtain l0 ls where s: "split_on n cs = l0 # ls"
      using split_on_not_Nil[of n cs] by (cases "split_on n cs") auto
    then have "l = c # l0 \<or> l \<in> set ls" using Cons.prems False by simp
    then show ?thesis using Cons.IH[of l0] Cons.IH[of l] s by auto
  qed
qed

lemma blank_text_no_chunks:
  assumes up: "py_upper py [] = []" and nl: "py_isspace py (lit py NL)"
    and blank: "list_all (py_isspace py) t"
  shows "split_content_intelligently_u py t m = []"
proof -
  have "\<forall>l \<in> set (split_nl_u py t). list_all (py_isspace py) l"
  proof
    fix l assume "l \<in> set (split_nl_u py t)"
    then have "set l \<subseteq> set t" unfolding split_nl_u_def by (rule split_on_lines_subset)
    then show "list_all (py_isspace py) l" using blank by (auto simp: list_all_iff)
  qed
  then obtain cur' where "foldl (split_line_u py m) ([], []) (split_nl_u py t) = ([], cur')"
      "list_all (py_isspace py) cur'"
    using foldl_blank_lines[OF up nl, of "split_nl_u py t" "[]" m] by auto
  then show ?thesis using strip_eq_Nil[of py cur'] by (simp add: split_content_intelligently_u_def)
qed

lemma no_chunks_iff_blank:
  assumes up: "py_upper py [] = []" and nl: "py_isspace py (lit py NL)"
  shows "(split_content_intelligently_u py t m = []) = list_all (py_isspace py) t"
proof
  assume "split_content_intelligently_u py t m = []"
  then have "non_space py t = []" using non_space_split_content[OF nl, of t m] by (simp add: non_space_def)
  then show "list_all (py_isspace py) t" by (simp add: non_space_def filter_empty_conv list_all_iff)
next
  assume "list_all (py_isspace py) t"
  then show "split_content_intelligently_u py t m = []" by (rule blank_text_no_chunks[OF up nl])
qed

lemma length_fst_foldl_split:
  "length (fst (foldl (split_line_u py m) st ls)) \<le> length (fst st) + length ls"
proof (induction ls arbitrary: st)
  case Nil
  then show ?case by simp
next
  case (Cons l ls)
  have "length (fst (split_line_u py m st l)) \<le> Suc (length (fst st))"
    by (cases st) (simp add: split_line_u_def)
  then show ?case using Cons[of "split_line_u py m st l"] by simp
qed

lemma chunks_le_lines:
  "length (split_content_intelligently_u py t m) \<le> length (split_nl_u py t)"
proof -
  obtain l ls where s: "split_nl_u py t = l # ls"
    using split_on_not_Nil[of "lit py NL" t] by (cases "split_nl_u py t") (auto simp: split_nl_u_def)
  have first: "split_line_u py m ([], []) l = ([], l @ [lit py NL])" by (simp add: split_line_u_def)
  have "length (fst (foldl (split_line_u py m) ([], l @ [lit py NL]) ls)) \<le> length ls"
    using length_fst_foldl_split[of py m "([], l @ [lit py NL])" ls] by simp
  then show ?thesis
    by (cases "foldl (split_line_u py m) ([], l @ [lit py NL]) ls")
       (simp add: split_content_intelligently_u_def s first)
qed

lemma ascii_isspace_NL: "py_isspace ascii_python (lit ascii_python NL)"
  by (simp add: ascii_python_def isspace_def NL_def)

lemma ascii_upper_Nil: "py_upper ascii_python [] = []"
  by (simp add: ascii_python_def upper_def)

lemma split_two_chunks:
  "split_content_intelligently_u ascii_python (''intro'' @ [NL] @ ''PART I'' @ [NL] @ ''text'') 3
     = [''intro'', ''PART I'' @ [NL] @ ''text'']"
  by code_simp

lemma split_blank: "split_content_intelligently_u ascii_python '' '' 50000 = []"
  by code_simp

lemma split_nl_ascii: "split_nl_u ascii_python t = split_nl t"
  by (induction t) (simp_all add: split_nl_u_def ascii_python_def)

lemma strip_ascii: "strip_u ascii_python s = strip s"
  by (simp add: strip_u_def strip_def ascii_python_def)

lemma any_in_ascii: "any_in_u ascii_python ks s = any_in ks s"
  by (simp add: any_in_u_def any_in_def literal_def ascii_python_def)

lemma split_line_ascii: "split_line_u ascii_python m st line = split_line m st line"
  by (cases st)
     (simp add: split_line_u_def split_line_def is_section_break_u_def is_section_break_def
        strip_ascii any_in_ascii, simp add: ascii_python_def)

lemma split_content_ascii:
  "split_content_intelligently_u ascii_python t m = split_content_intelligently t m"
proof -
  have "split_line_u ascii_python m = split_line m"
    by (intro ext) (rule split_line_ascii)
  then show ?thesis
    by (simp add: split_content_intelligently_u_def split_content_intelligently_def
          split_nl_ascii strip_ascii cong: if_cong)
qed

text \<open>
  C4. Whatever the text and the maximum chunk size, the chunks of the splitter,
  concatenated in their order, have the characters of the text that are not whitespace,
  each once and in the order of the text: nothing but whitespace is lost, and nothing is
  repeated or moved. Whitespace is what \<^verbatim>\<open>str.isspace\<close> holds of, the newline included.
\<close>

theorem C4_chunks_reproduce_text:
  assumes "py_isspace py (lit py NL)"
  shows "filter (\<lambda>c. \<not> py_isspace py c)
           (concat (split_content_intelligently_u py text_content max_chunk_size))
         = filter (\<lambda>c. \<not> py_isspace py c) text_content"
  using non_space_split_content[OF assms, of text_content max_chunk_size]
  by (simp only: non_space_def)

theorem C4_chunks_reproduce_text_witness:
  "py_isspace ascii_python (lit ascii_python NL)
   \<and> split_content_intelligently_u ascii_python (''intro'' @ [NL] @ ''PART I'' @ [NL] @ ''text'') 3
       = [''intro'', ''PART I'' @ [NL] @ ''text'']
   \<and> filter (\<lambda>c. \<not> py_isspace ascii_python c) (concat [''intro'', ''PART I'' @ [NL] @ ''text''])
       = filter (\<lambda>c. \<not> py_isspace ascii_python c) (''intro'' @ [NL] @ ''PART I'' @ [NL] @ ''text'')"
proof -
  have "filter (\<lambda>c. \<not> py_isspace ascii_python c)
           (concat (split_content_intelligently_u ascii_python (''intro'' @ [NL] @ ''PART I'' @ [NL] @ ''text'') 3))
         = filter (\<lambda>c. \<not> py_isspace ascii_python c) (''intro'' @ [NL] @ ''PART I'' @ [NL] @ ''text'')"
    using ascii_isspace_NL by (rule C4_chunks_reproduce_text)
  then have "filter (\<lambda>c. \<not> py_isspace ascii_python c) (concat [''intro'', ''PART I'' @ [NL] @ ''text''])
       = filter (\<lambda>c. \<not> py_isspace ascii_python c) (''intro'' @ [NL] @ ''PART I'' @ [NL] @ ''text'')"
    by (simp only: split_two_chunks)
  with ascii_isspace_NL split_two_chunks show ?thesis by (intro conjI)
qed

text \<open>
  C5, as amended. The splitter makes one pass over the lines of the text and returns at
  most as many chunks as there are lines. It returns no chunk exactly if the text is
  whitespace only, so at least one chunk for a text with a character that is not
  whitespace; a text of blanks or newlines, though not empty, yields no chunk.
\<close>

theorem C5_no_chunks_iff_blank:
  assumes "py_isspace py (lit py NL)" and "py_upper py [] = []"
  shows "(split_content_intelligently_u py text_content max_chunk_size = [])
           = list_all (py_isspace py) text_content
         \<and> length (split_content_intelligently_u py text_content max_chunk_size)
             \<le> length (split_nl_u py text_content)"
  using no_chunks_iff_blank[OF assms(2) assms(1), of text_content max_chunk_size]
    chunks_le_lines[of py text_content max_chunk_size]
  by (rule conjI)

theorem C5_no_chunks_iff_blank_witness:
  "py_isspace ascii_python (lit ascii_python NL) \<and> py_upper ascii_python [] = []
   \<and> split_content_intelligently_u ascii_python '' '' 50000 = []
   \<and> list_all (py_isspace ascii_python) '' ''
   \<and> split_content_intelligently_u ascii_python ''a b'' 50000 \<noteq> []
   \<and> \<not> list_all (py_isspace ascii_python) ''a b''"
proof -
  have blank: "list_all (py_isspace ascii_python) '' ''"
    by (simp add: ascii_python_def isspace_def)
  have nonblank: "\<not> list_all (py_isspace ascii_python) ''a b''"
    by (simp add: ascii_python_def isspace_def)
  have "split_content_intelligently_u ascii_python '' '' 50000 = []"
    using C5_no_chunks_iff_blank[OF ascii_isspace_NL ascii_upper_Nil, of "'' ''" 50000] blank
    by (simp only: simp_thms)
  moreover have "split_content_intelligently_u ascii_python ''a b'' 50000 \<noteq> []"
    using C5_no_chunks_iff_blank[OF ascii_isspace_NL ascii_upper_Nil, of "''a b''" 50000] nonblank
    by (simp only: simp_thms)
  ultimately show ?thesis using ascii_isspace_NL ascii_upper_Nil blank nonblank by (intro conjI)
qed

theorem C5_blank_text_counterexample:
  "'' '' \<noteq> [] \<and> split_content_intelligently_u ascii_python '' '' 50000 = []"
  using split_blank by simp


section \<open>The output of the preprocessor\<close>

lemma join_on_Cons_Cons: "join_on sep ((c # l) # ls) = c # join_on sep (l # ls)"
  by (cases ls) simp_all

lemma join_split_on: "join_on [n] (split_on n t) = t"
proof (induction t)
  case Nil
  then show ?case by simp
next
  case (Cons c cs)
  obtain l ls where s: "split_on n cs = l # ls"
    using split_on_not_Nil[of n cs] by (cases "split_on n cs") auto
  show ?case
  proof (cases "c = n")
    case True
    then show ?thesis using Cons s by simp
  next
    case False
    then show ?thesis using Cons s by (simp add: join_on_Cons_Cons del: join_on.simps)
  qed
qed

lemma join_split_nl_u: "join_nl_u py (split_nl_u py t) = t"
  by (simp add: join_nl_u_def split_nl_u_def join_split_on)

text \<open>One pass of the preprocessor's loop appends the line or nothing.\<close>

lemma preprocess_line_cleaned:
  "u_cleaned_lines (preprocess_line_u py st l) = u_cleaned_lines st
   \<or> u_cleaned_lines (preprocess_line_u py st l) = u_cleaned_lines st @ [l]"
  by (simp add: preprocess_line_u_def Let_def)

lemma preprocess_foldl_subseq:
  "\<exists>xs. u_cleaned_lines (foldl (preprocess_line_u py) st ls) = u_cleaned_lines st @ xs \<and> subseq xs ls"
proof (induction ls arbitrary: st)
  case Nil
  then show ?case by simp
next
  case (Cons l ls)
  obtain xs where xs: "u_cleaned_lines (foldl (preprocess_line_u py) (preprocess_line_u py st l) ls)
      = u_cleaned_lines (preprocess_line_u py st l) @ xs" and sub: "subseq xs ls"
    using Cons[of "preprocess_line_u py st l"] by auto
  from preprocess_line_cleaned[of py st l] show ?case
  proof
    assume "u_cleaned_lines (preprocess_line_u py st l) = u_cleaned_lines st"
    then show ?thesis using xs sub by (intro exI[of _ xs]) (simp add: list_emb_Cons)
  next
    assume "u_cleaned_lines (preprocess_line_u py st l) = u_cleaned_lines st @ [l]"
    then show ?thesis using xs sub by (intro exI[of _ "l # xs"]) simp
  qed
qed

lemma find_Some_mem: "List.find P xs = Some x \<Longrightarrow> x \<in> set xs"
  by (induction xs) (auto split: if_splits)

lemma position_scan_in_range: "position_scan_u py ls = Some i \<Longrightarrow> i < length ls"
proof -
  assume "position_scan_u py ls = Some i"
  then have "i \<in> set [length ls div 5 ..< min (length ls div 5 + 1000) (length ls)]"
    unfolding position_scan_u_def Let_def by (rule find_Some_mem)
  then show ?thesis by simp
qed

lemma preprocess_lines_subseq: "subseq (preprocess_lines_u py ls) ls"
proof -
  obtain xs where xs: "u_cleaned_lines (foldl (preprocess_line_u py) pre_init_u ls) = xs" and sub: "subseq xs ls"
    using preprocess_foldl_subseq[of py pre_init_u ls] by (auto simp: pre_init_u_def)
  have drop: "subseq (drop i ls) ls" for i
    by (rule suffix_imp_subseq) (rule suffix_drop)
  show ?thesis
    using sub drop by (auto simp: preprocess_lines_u_def Let_def position_based_u_def xs split: option.splits)
qed

text \<open>Until the narrative start is found nothing is kept.\<close>

lemma preprocess_line_not_found:
  "\<not> u_found_narrative_start (preprocess_line_u py st l) \<Longrightarrow> u_cleaned_lines st = [] \<Longrightarrow>
     u_cleaned_lines (preprocess_line_u py st l) = []"
  by (simp add: preprocess_line_u_def Let_def split: if_splits)

lemma preprocess_line_found_mono:
  "u_found_narrative_start st \<Longrightarrow> u_found_narrative_start (preprocess_line_u py st l)"
  by (simp add: preprocess_line_u_def Let_def)

lemma foldl_found_mono:
  "u_found_narrative_start st \<Longrightarrow> u_found_narrative_start (foldl (preprocess_line_u py) st ls)"
  by (induction ls arbitrary: st) (simp_all add: preprocess_line_found_mono)

lemma foldl_not_found:
  "\<not> u_found_narrative_start (foldl (preprocess_line_u py) st ls) \<Longrightarrow> u_cleaned_lines st = [] \<Longrightarrow>
     u_cleaned_lines (foldl (preprocess_line_u py) st ls) = []"
proof (induction ls arbitrary: st)
  case Nil
  then show ?case by simp
next
  case (Cons l ls)
  have nf: "\<not> u_found_narrative_start (preprocess_line_u py st l)"
    using Cons.prems(1) foldl_found_mono[of "preprocess_line_u py st l" py ls] by auto
  have "u_cleaned_lines (preprocess_line_u py st l) = []"
    using nf Cons.prems(2) by (rule preprocess_line_not_found)
  then show ?case using Cons.IH[of "preprocess_line_u py st l"] Cons.prems(1) by simp
qed

lemma nothing_fires_empty:
  assumes "\<not> u_found_narrative_start (foldl (preprocess_line_u py) pre_init_u ls)"
    and "position_scan_u py ls = None"
  shows "preprocess_lines_u py ls = []"
proof -
  have "u_cleaned_lines (foldl (preprocess_line_u py) pre_init_u ls) = []"
    using assms(1) by (rule foldl_not_found) (simp add: pre_init_u_def)
  then show ?thesis using assms by (simp add: preprocess_lines_u_def Let_def position_based_u_def)
qed

lemma hello_nothing_fires:
  "\<not> u_found_narrative_start (foldl (preprocess_line_u ascii_python) pre_init_u (split_nl_u ascii_python ''hello''))
   \<and> position_scan_u ascii_python (split_nl_u ascii_python ''hello'') = None"
  by code_simp

lemma hello_empty: "preprocess_filing_content_u ascii_python ''hello'' = []"
  by code_simp

lemma no_marker_nothing_fires:
  "\<not> u_found_narrative_start (foldl (preprocess_line_u ascii_python) pre_init_u
        (split_nl_u ascii_python (''no marker'' @ [NL] @ ''here'')))
   \<and> position_scan_u ascii_python (split_nl_u ascii_python (''no marker'' @ [NL] @ ''here'')) = None"
  by code_simp

text \<open>
  C3, as amended. The preprocessor returns for every text: its one indexed read, of the
  line that the position-based scan has reached, is within the lines. What it returns is
  made of lines of the text in their order, joined by newlines, so it is never more than
  the text. When no narrative start is found in the pass over the lines and the
  position-based scan hits no line, it returns the empty string, not the text.
\<close>

theorem C3_preprocessor_output:
  "subseq (preprocess_lines_u py (split_nl_u py text_content)) (split_nl_u py text_content)
   \<and> (\<forall>i. position_scan_u py (split_nl_u py text_content) = Some i
          \<longrightarrow> i < length (split_nl_u py text_content))
   \<and> (\<not> u_found_narrative_start
            (foldl (preprocess_line_u py) pre_init_u (split_nl_u py text_content))
        \<longrightarrow> position_scan_u py (split_nl_u py text_content) = None
        \<longrightarrow> preprocess_filing_content_u py text_content = [])"
proof (intro conjI allI impI)
  show "subseq (preprocess_lines_u py (split_nl_u py text_content)) (split_nl_u py text_content)"
    by (rule preprocess_lines_subseq)
next
  fix i assume "position_scan_u py (split_nl_u py text_content) = Some i"
  then show "i < length (split_nl_u py text_content)" by (rule position_scan_in_range)
next
  assume "\<not> u_found_narrative_start
            (foldl (preprocess_line_u py) pre_init_u (split_nl_u py text_content))"
    and "position_scan_u py (split_nl_u py text_content) = None"
  then have "preprocess_lines_u py (split_nl_u py text_content) = []"
    by (rule nothing_fires_empty)
  then show "preprocess_filing_content_u py text_content = []"
    by (simp add: preprocess_filing_content_u_def join_nl_u_def)
qed

theorem C3_preprocessor_output_witness:
  "\<not> u_found_narrative_start (foldl (preprocess_line_u ascii_python) pre_init_u
        (split_nl_u ascii_python (''no marker'' @ [NL] @ ''here'')))
   \<and> position_scan_u ascii_python (split_nl_u ascii_python (''no marker'' @ [NL] @ ''here'')) = None
   \<and> preprocess_filing_content_u ascii_python (''no marker'' @ [NL] @ ''here'') = []"
proof -
  note f = no_marker_nothing_fires
  have "preprocess_filing_content_u ascii_python (''no marker'' @ [NL] @ ''here'') = []"
    using C3_preprocessor_output[of ascii_python "''no marker'' @ [NL] @ ''here''"]
      f[THEN conjunct1] f[THEN conjunct2] by (elim conjE) (rule mp[OF mp])
  with f show ?thesis by (intro conjI) (elim conjE, assumption)+
qed

theorem C3_empty_output_counterexample:
  "\<not> u_found_narrative_start (foldl (preprocess_line_u ascii_python) pre_init_u
        (split_nl_u ascii_python ''hello''))
   \<and> position_scan_u ascii_python (split_nl_u ascii_python ''hello'') = None
   \<and> preprocess_filing_content_u ascii_python ''hello'' = []
   \<and> ''hello'' \<noteq> []"
  using hello_nothing_fires hello_empty by simp


section \<open>The preprocessor on text without markers\<close>

lemma preprocess_line_plain:
  assumes "\<not> xbrl_marker_u py l" and "\<not> toc_marker_u py l"
    and "\<not> u_in_xbrl_section st" and "\<not> u_in_toc_section st"
  shows "preprocess_line_u py st l =
     (if u_found_narrative_start st then st\<lparr>u_cleaned_lines := u_cleaned_lines st @ [l]\<rparr>
      else if alt_start_u py l
        then st\<lparr>u_found_narrative_start := True, u_cleaned_lines := u_cleaned_lines st @ [l]\<rparr>
      else st)"
  using assms
  by (simp add: preprocess_line_u_def Let_def xbrl_marker_u_def toc_marker_u_def alt_start_u_def)

lemma foldl_plain_found:
  assumes "\<forall>l \<in> set ls. \<not> xbrl_marker_u py l \<and> \<not> toc_marker_u py l"
    and "\<not> u_in_xbrl_section st" and "\<not> u_in_toc_section st" and "u_found_narrative_start st"
  shows "foldl (preprocess_line_u py) st ls = st\<lparr>u_cleaned_lines := u_cleaned_lines st @ ls\<rparr>"
  using assms
proof (induction ls arbitrary: st)
  case Nil
  then show ?case by simp
next
  case (Cons l ls)
  have step: "preprocess_line_u py st l = st\<lparr>u_cleaned_lines := u_cleaned_lines st @ [l]\<rparr>"
    using Cons.prems by (simp add: preprocess_line_plain)
  have "foldl (preprocess_line_u py) (st\<lparr>u_cleaned_lines := u_cleaned_lines st @ [l]\<rparr>) ls
      = (st\<lparr>u_cleaned_lines := u_cleaned_lines st @ [l]\<rparr>)
          \<lparr>u_cleaned_lines := u_cleaned_lines (st\<lparr>u_cleaned_lines := u_cleaned_lines st @ [l]\<rparr>) @ ls\<rparr>"
    using Cons.prems by (intro Cons.IH) simp_all
  then show ?case by (simp add: step)
qed

lemma foldl_plain_not_found:
  assumes "\<forall>l \<in> set ls. \<not> xbrl_marker_u py l \<and> \<not> toc_marker_u py l"
    and "\<not> u_in_xbrl_section st" and "\<not> u_in_toc_section st" and "\<not> u_found_narrative_start st"
  shows "foldl (preprocess_line_u py) st ls =
     (if \<exists>l \<in> set ls. alt_start_u py l
      then st\<lparr>u_found_narrative_start := True,
               u_cleaned_lines := u_cleaned_lines st @ dropWhile (\<lambda>l. \<not> alt_start_u py l) ls\<rparr>
      else st)"
  using assms
proof (induction ls arbitrary: st)
  case Nil
  then show ?case by simp
next
  case (Cons l ls)
  have rest: "\<forall>l \<in> set ls. \<not> xbrl_marker_u py l \<and> \<not> toc_marker_u py l"
    using Cons.prems(1) by simp
  show ?case
  proof (cases "alt_start_u py l")
    case True
    have step: "preprocess_line_u py st l
        = st\<lparr>u_found_narrative_start := True, u_cleaned_lines := u_cleaned_lines st @ [l]\<rparr>"
      using Cons.prems True by (simp add: preprocess_line_plain)
    have "foldl (preprocess_line_u py)
            (st\<lparr>u_found_narrative_start := True, u_cleaned_lines := u_cleaned_lines st @ [l]\<rparr>) ls
        = (st\<lparr>u_found_narrative_start := True, u_cleaned_lines := u_cleaned_lines st @ [l]\<rparr>)
            \<lparr>u_cleaned_lines := u_cleaned_lines
                (st\<lparr>u_found_narrative_start := True, u_cleaned_lines := u_cleaned_lines st @ [l]\<rparr>) @ ls\<rparr>"
      using rest Cons.prems(2,3) by (intro foldl_plain_found) simp_all
    then show ?thesis using True by (simp add: step)
  next
    case False
    have step: "preprocess_line_u py st l = st"
      using Cons.prems False by (simp add: preprocess_line_plain)
    show ?thesis using False Cons.IH[OF rest Cons.prems(2,3,4)] by (simp add: step)
  qed
qed

lemma preprocess_lines_plain:
  assumes "\<forall>l \<in> set ls. \<not> xbrl_marker_u py l \<and> \<not> toc_marker_u py l"
  shows "preprocess_lines_u py ls =
     (if \<exists>l \<in> set ls. alt_start_u py l then dropWhile (\<lambda>l. \<not> alt_start_u py l) ls
      else position_based_u py ls [])"
proof -
  have f: "foldl (preprocess_line_u py) pre_init_u ls =
     (if \<exists>l \<in> set ls. alt_start_u py l
      then pre_init_u\<lparr>u_found_narrative_start := True,
               u_cleaned_lines := u_cleaned_lines pre_init_u @ dropWhile (\<lambda>l. \<not> alt_start_u py l) ls\<rparr>
      else pre_init_u)"
    using assms by (intro foldl_plain_not_found) (simp_all add: pre_init_u_def)
  show ?thesis
  proof (cases "\<exists>l \<in> set ls. alt_start_u py l")
    case True
    then show ?thesis unfolding preprocess_lines_u_def Let_def f by (simp add: pre_init_u_def)
  next
    case False
    then show ?thesis unfolding preprocess_lines_u_def Let_def f by (simp add: pre_init_u_def)
  qed
qed

lemma preprocess_plain_first_line:
  assumes "\<forall>l \<in> set (split_nl_u py t). \<not> xbrl_marker_u py l \<and> \<not> toc_marker_u py l"
    and "alt_start_u py (hd (split_nl_u py t))"
  shows "preprocess_filing_content_u py t = t"
proof -
  obtain l ls where s: "split_nl_u py t = l # ls"
    using split_on_not_Nil[of "lit py NL" t] by (cases "split_nl_u py t") (auto simp: split_nl_u_def)
  have "preprocess_lines_u py (split_nl_u py t) = split_nl_u py t"
    using preprocess_lines_plain[OF assms(1)] assms(2) by (simp add: s)
  then show ?thesis by (simp add: preprocess_filing_content_u_def join_split_nl_u)
qed

lemma operates_plain:
  "(\<forall>l \<in> set (split_nl_u ascii_python (''the company operates two mills'' @ [NL] @ ''and a quarry'')).
       \<not> xbrl_marker_u ascii_python l \<and> \<not> toc_marker_u ascii_python l)
   \<and> (\<exists>l \<in> set (split_nl_u ascii_python (''the company operates two mills'' @ [NL] @ ''and a quarry'')).
         alt_start_u ascii_python l)
   \<and> alt_start_u ascii_python
        (hd (split_nl_u ascii_python (''the company operates two mills'' @ [NL] @ ''and a quarry'')))"
  by code_simp

lemma quarterly_plain:
  "list_all (\<lambda>l. \<not> xbrl_marker_u ascii_python l \<and> \<not> toc_marker_u ascii_python l)
     (split_nl_u ascii_python ''quarterly results were strong'')"
  by code_simp

lemma quarterly_empty:
  "preprocess_filing_content_u ascii_python ''quarterly results were strong'' = []"
  by code_simp

lemma quarterly_non_space:
  "non_space ascii_python ''quarterly results were strong'' \<noteq> non_space ascii_python []"
  by code_simp

text \<open>
  C6, as amended. On a text none of whose lines holds a machine-tagging indicator or a
  table-of-contents marker, the preprocessor returns the lines from the first alternative
  narrative start on: the first line whose stripped, lower-cased text holds
  \<^verbatim>\<open>item 1. business\<close>, \<^verbatim>\<open>part i - item 1\<close>, \<^verbatim>\<open>underwriting for\<close> or \<^verbatim>\<open>the company operates\<close>
  and is longer than 15 characters. Without such a line it returns what the position-based
  approach gives, the lines from its first hit on or nothing. The text comes back unchanged,
  character for character, when its first line is such a narrative start.
\<close>

theorem C6_marker_free_text:
  assumes "\<forall>l \<in> set (split_nl_u py text_content). \<not> xbrl_marker_u py l \<and> \<not> toc_marker_u py l"
  shows "preprocess_lines_u py (split_nl_u py text_content) =
           (if \<exists>l \<in> set (split_nl_u py text_content). alt_start_u py l
            then dropWhile (\<lambda>l. \<not> alt_start_u py l) (split_nl_u py text_content)
            else position_based_u py (split_nl_u py text_content) [])
         \<and> (alt_start_u py (hd (split_nl_u py text_content))
              \<longrightarrow> preprocess_filing_content_u py text_content = text_content)"
proof (intro conjI impI)
  show "preprocess_lines_u py (split_nl_u py text_content) =
           (if \<exists>l \<in> set (split_nl_u py text_content). alt_start_u py l
            then dropWhile (\<lambda>l. \<not> alt_start_u py l) (split_nl_u py text_content)
            else position_based_u py (split_nl_u py text_content) [])"
    using assms by (rule preprocess_lines_plain)
next
  assume "alt_start_u py (hd (split_nl_u py text_content))"
  with assms show "preprocess_filing_content_u py text_content = text_content"
    by (rule preprocess_plain_first_line)
qed

theorem C6_marker_free_text_witness:
  "list_all (\<lambda>l. \<not> xbrl_marker_u ascii_python l \<and> \<not> toc_marker_u ascii_python l)
     (split_nl_u ascii_python (''the company operates two mills'' @ [NL] @ ''and a quarry''))
   \<and> alt_start_u ascii_python
        (hd (split_nl_u ascii_python (''the company operates two mills'' @ [NL] @ ''and a quarry'')))
   \<and> preprocess_filing_content_u ascii_python (''the company operates two mills'' @ [NL] @ ''and a quarry'')
       = ''the company operates two mills'' @ [NL] @ ''and a quarry''"
proof -
  note f = operates_plain
  have "preprocess_filing_content_u ascii_python (''the company operates two mills'' @ [NL] @ ''and a quarry'')
       = ''the company operates two mills'' @ [NL] @ ''and a quarry''"
    using C6_marker_free_text[OF f[THEN conjunct1], THEN conjunct2] f[THEN conjunct2, THEN conjunct2]
    by (rule mp)
  moreover note f[THEN conjunct1, folded list_all_iff] f[THEN conjunct2, THEN conjunct2]
  ultimately show ?thesis by (intro conjI)
qed

text \<open>
  A text without any marker of which nothing comes back: no line is a narrative start and
  the position-based scan hits no line, so every non-whitespace character is lost.
\<close>

theorem C6_marker_free_text_lost_counterexample:
  "list_all (\<lambda>l. \<not> xbrl_marker_u ascii_python l \<and> \<not> toc_marker_u ascii_python l)
     (split_nl_u ascii_python ''quarterly results were strong'')
   \<and> preprocess_filing_content_u ascii_python ''quarterly results were strong'' = []
   \<and> non_space ascii_python ''quarterly results were strong'' \<noteq> non_space ascii_python []"
  using quarterly_plain quarterly_empty quarterly_non_space by (intro conjI)


section \<open>The chunks counted and the chunks submitted\<close>

lemma sublist_append_disjoint:
  assumes "k \<noteq> []" and "set k \<inter> set ys = {}"
  shows "sublist k (xs @ ys) = sublist k xs"
proof
  assume "sublist k (xs @ ys)"
  then consider "sublist k xs" | "sublist k ys"
    | k1 k2 where "k = k1 @ k2" "suffix k1 xs" "prefix k2 ys"
    unfolding sublist_append by auto
  then show "sublist k xs"
  proof cases
    case 1
    then show ?thesis .
  next
    case 2
    then have "set k \<subseteq> set ys" by (rule set_mono_sublist)
    then have "set k \<inter> set ys = set k" by (rule Int_absorb2)
    with assms(2) have "set k = {}" by simp
    with assms(1) show ?thesis by simp
  next
    case 3
    from 3(3) have "set k2 \<subseteq> set ys" by (rule set_mono_prefix)
    moreover have "set k2 \<subseteq> set k" using 3(1) by simp
    ultimately have "set k2 \<subseteq> set k \<inter> set ys" by (intro Int_greatest)
    then have "set k2 = {}" using assms(2) by simp
    then have "k = k1" using 3(1) by simp
    with 3(2) show ?thesis by (simp add: suffix_imp_sublist)
  qed
next
  assume "sublist k xs"
  then show "sublist k (xs @ ys)" by (simp add: sublist_append)
qed

lemma any_in_append_filler:
  assumes "\<forall>k \<in> set ks. k \<noteq> [] \<and> c \<notin> set k"
  shows "any_in ks (xs @ replicate n c) = any_in ks xs"
proof -
  have "sublist k (xs @ replicate n c) = sublist k xs" if "k \<in> set ks" for k
  proof (rule sublist_append_disjoint)
    show "k \<noteq> []" using assms that by simp
    show "set k \<inter> set (replicate n c) = {}" using assms that by (cases "n = 0") auto
  qed
  then show ?thesis by (simp add: any_in_def list_ex_iff)
qed

lemma dropWhile_keep: "xs \<noteq> [] \<Longrightarrow> \<not> P (hd xs) \<Longrightarrow> dropWhile P xs = xs"
  by (cases xs) simp_all

lemma strip_keep:
  assumes "s \<noteq> []" and "\<not> isspace (hd s)" and "\<not> isspace (last s)"
  shows "strip s = s"
proof -
  have a: "dropWhile isspace s = s" using assms(1,2) by (rule dropWhile_keep)
  have "rev s \<noteq> []" and "\<not> isspace (hd (rev s))" using assms(1,3) by (simp_all add: hd_rev)
  then have "dropWhile isspace (rev s) = rev s" by (rule dropWhile_keep)
  then show ?thesis by (simp add: strip_def a)
qed

lemma strip_keep_NL:
  assumes "s \<noteq> []" and "\<not> isspace (hd s)" and "\<not> isspace (last s)"
  shows "strip (s @ [NL]) = s"
proof -
  have a: "dropWhile isspace (s @ [NL]) = s @ [NL]" using assms(1,2) by (cases s) simp_all
  have "rev s \<noteq> []" and "\<not> isspace (hd (rev s))" using assms(1,3) by (simp_all add: hd_rev)
  then have b: "dropWhile isspace (rev s) = rev s" by (rule dropWhile_keep)
  have "isspace NL" by (simp add: isspace_def NL_def)
  then show ?thesis by (simp add: strip_def a b)
qed

lemma split_nl_no_NL: "NL \<notin> set l \<Longrightarrow> split_nl l = [l]"
  by (induction l) auto

lemma split_nl_line: "NL \<notin> set l \<Longrightarrow> split_nl (l @ NL # rest) = l # split_nl rest"
  by (induction l) (auto split: list.splits)

lemma split_nl_join_nl:
  assumes "\<forall>l \<in> set ls. NL \<notin> set l" and "ls \<noteq> []"
  shows "split_nl (join_nl ls) = ls"
  using assms
proof (induction ls)
  case Nil
  then show ?case by simp
next
  case (Cons l ls)
  show ?case
  proof (cases ls)
    case Nil
    then show ?thesis using Cons.prems by (simp add: join_nl_def split_nl_no_NL)
  next
    case (Cons m ms)
    have "split_nl (join_nl (m # ms)) = m # ms"
      using Cons.IH Cons.prems Cons by simp
    then show ?thesis using Cons.prems Cons by (simp add: join_nl_def split_nl_line)
  qed
qed

text \<open>The long line.\<close>

lemma long_line_not_Nil: "long_line \<noteq> []"
  by (simp add: long_line_def)

lemma long_line_hd: "\<not> isspace (hd long_line)"
  by (simp add: long_line_def isspace_def)

lemma long_line_last: "\<not> isspace (last long_line)"
  by (simp add: long_line_def isspace_def)

lemma long_line_NL: "NL \<notin> set long_line"
  by (simp add: long_line_def NL_def)

lemma long_line_length: "length long_line = 50032"
  by (simp add: long_line_def)

lemma long_line_strip: "strip long_line = long_line"
  using long_line_not_Nil long_line_hd long_line_last by (rule strip_keep)

lemma long_line_strip_NL: "strip (long_line @ [NL]) = long_line"
  using long_line_not_Nil long_line_hd long_line_last by (rule strip_keep_NL)

lemma lower_z: "lower_char (CHR ''z'') = CHR ''z''"
  by code_simp

lemma upper_z: "upper_char (CHR ''z'') = CHR ''Z''"
  by code_simp

lemma long_line_lower:
  "lower long_line = lower ''SIGNATURES the company operates '' @ replicate 50000 (CHR ''z'')"
  by (simp only: long_line_def lower_def map_append map_replicate lower_z)

lemma long_line_upper:
  "upper long_line = upper ''SIGNATURES the company operates '' @ replicate 50000 (CHR ''Z'')"
  by (simp only: long_line_def upper_def map_append map_replicate upper_z)

lemma no_z: 
  "\<forall>k \<in> set xbrl_indicators. k \<noteq> [] \<and> CHR ''z'' \<notin> set k"
  "\<forall>k \<in> set toc_indicators. k \<noteq> [] \<and> CHR ''z'' \<notin> set k"
  by code_simp+

lemma prefix_tests:
  "\<not> any_in xbrl_indicators (lower ''SIGNATURES the company operates '')"
  "\<not> any_in toc_indicators (lower ''SIGNATURES the company operates '')"
  "any_in alt_narrative_indicators (lower ''SIGNATURES the company operates '')"
  "any_in section_markers (upper ''SIGNATURES the company operates '')"
  by code_simp+

lemma long_line_xbrl: "\<not> any_in xbrl_indicators (lower long_line)"
  by (simp only: long_line_lower any_in_append_filler[OF no_z(1)] prefix_tests not_False_eq_True)

lemma long_line_toc: "\<not> any_in toc_indicators (lower long_line)"
  by (simp only: long_line_lower any_in_append_filler[OF no_z(2)] prefix_tests not_False_eq_True)

lemma any_in_appendI: "any_in ks xs \<Longrightarrow> any_in ks (xs @ ys)"
  by (auto simp: any_in_def list_ex_iff sublist_append)

lemma long_line_alt: "any_in alt_narrative_indicators (lower long_line)"
  unfolding long_line_lower by (rule any_in_appendI) (rule prefix_tests)

lemma long_line_break: "is_section_break long_line"
  unfolding is_section_break_def long_line_strip long_line_upper
  by (rule any_in_appendI) (rule prefix_tests)

text \<open>The preprocessor keeps the filing, and the splitter cuts it at every line.\<close>

lemma preprocess_line_long_first:
  "preprocess_line pre_init long_line
     = \<lparr>in_xbrl_section = False, in_toc_section = False, found_narrative_start = True,
        cleaned_lines = [long_line]\<rparr>"
  by (simp add: preprocess_line_def Let_def long_line_strip long_line_xbrl long_line_toc long_line_alt
        long_line_length pre_init_def)

lemma preprocess_line_long_next:
  "preprocess_line \<lparr>in_xbrl_section = False, in_toc_section = False, found_narrative_start = True,
        cleaned_lines = ls\<rparr> long_line
     = \<lparr>in_xbrl_section = False, in_toc_section = False, found_narrative_start = True,
        cleaned_lines = ls @ [long_line]\<rparr>"
  by (simp add: preprocess_line_def Let_def long_line_strip long_line_xbrl long_line_toc)

lemma preprocess_foldl_long:
  "foldl preprocess_line \<lparr>in_xbrl_section = False, in_toc_section = False,
        found_narrative_start = True, cleaned_lines = ls\<rparr> (replicate n long_line)
     = \<lparr>in_xbrl_section = False, in_toc_section = False, found_narrative_start = True,
        cleaned_lines = ls @ replicate n long_line\<rparr>"
proof (induction n arbitrary: ls)
  case 0
  then show ?case by simp
next
  case (Suc n)
  show ?case by (simp add: preprocess_line_long_next Suc.IH replicate_app_Cons_same)
qed

lemma split_nl_seven: "split_nl seven_chunk_filing = replicate 7 long_line"
  unfolding seven_chunk_filing_def by (rule split_nl_join_nl) (simp_all add: long_line_NL)

lemma preprocess_seven: "preprocess_filing_content seven_chunk_filing = seven_chunk_filing"
proof -
  have r: "replicate 7 long_line = long_line # replicate 6 long_line"
    by (simp add: eval_nat_numeral)
  have "foldl preprocess_line pre_init (replicate 7 long_line)
      = \<lparr>in_xbrl_section = False, in_toc_section = False, found_narrative_start = True,
          cleaned_lines = [long_line] @ replicate 6 long_line\<rparr>"
    unfolding r foldl_Cons preprocess_line_long_first by (rule preprocess_foldl_long)
  then have f: "foldl preprocess_line pre_init (split_nl seven_chunk_filing)
      = \<lparr>in_xbrl_section = False, in_toc_section = False, found_narrative_start = True,
          cleaned_lines = replicate 7 long_line\<rparr>"
    by (simp add: split_nl_seven r)
  show ?thesis
    unfolding preprocess_filing_content_def Let_def f by (simp add: seven_chunk_filing_def)
qed

lemma split_line_long_first: "split_line 50000 (cs, []) long_line = (cs, long_line @ [NL])"
  by (simp add: split_line_def)

lemma split_line_long_next:
  "split_line 50000 (cs, long_line @ [NL]) long_line = (cs @ [long_line], long_line @ [NL])"
  by (simp add: split_line_def long_line_break long_line_length long_line_strip_NL)

lemma split_foldl_long:
  "foldl (split_line 50000) (cs, long_line @ [NL]) (replicate n long_line)
     = (cs @ replicate n long_line, long_line @ [NL])"
proof (induction n arbitrary: cs)
  case 0
  then show ?case by simp
next
  case (Suc n)
  show ?case by (simp add: split_line_long_next Suc.IH replicate_app_Cons_same)
qed

lemma split_seven:
  "split_content_intelligently seven_chunk_filing 50000 = replicate 7 long_line"
proof -
  have r: "replicate 7 long_line = long_line # replicate 6 long_line"
    by (simp add: eval_nat_numeral)
  have "foldl (split_line 50000) ([], []) (replicate 7 long_line)
      = ([] @ replicate 6 long_line, long_line @ [NL])"
    unfolding r foldl_Cons split_line_long_first by (rule split_foldl_long)
  then have f: "foldl (split_line 50000) ([], []) (split_nl seven_chunk_filing)
      = (replicate 6 long_line, long_line @ [NL])"
    by (simp add: split_nl_seven)
  have e: "replicate 6 long_line @ [long_line] = replicate 7 long_line"
    by (simp add: eval_nat_numeral)
  show ?thesis
    unfolding split_content_intelligently_def f
    by (simp add: long_line_strip_NL long_line_not_Nil e)
qed

lemma chunks_processed_seven:
  "chunks_processed (parse_structured_filing plain_lib ac seven_chunk_filing url) = 7"
  by (simp add: parse_structured_filing_def Let_def plain_lib_def preprocess_seven split_seven)

lemma six_numbers: "map Suc [0 ..< min 6 7] = [1, 2, 3, 4, 5, 6]"
  by code_simp

text \<open>
  C9. The mapper submits the first six chunks at most, numbered from 1. The field
  \<^verbatim>\<open>chunks_processed\<close> of the result is the number of chunks the splitter returned, with or
  without a language model: it is set before the mapper runs. On the filing of seven long
  lines the splitter returns seven chunks, so the field is 7 where the mapper submits six.
\<close>

theorem C9_chunks_processed_counts_all_chunks:
  "submitted (llm_parse_structure_pydantic lib client filing_content url chunks)
     = map Suc [0 ..< min 6 (length chunks)]
   \<and> chunks_processed (parse_structured_filing lib anthropic_client filing_content url)
       = length (split_content_intelligently
                   (preprocess_filing_content (get_text lib filing_content)) 50000)
   \<and> chunks_processed (parse_structured_filing plain_lib (Some client) seven_chunk_filing url) = 7
   \<and> submitted (llm_parse_structure_pydantic plain_lib client seven_chunk_filing url
         (split_content_intelligently (preprocess_filing_content seven_chunk_filing) 50000))
       = [1, 2, 3, 4, 5, 6]"
proof (intro conjI)
  show "submitted (llm_parse_structure_pydantic lib client filing_content url chunks)
     = map Suc [0 ..< min 6 (length chunks)]"
    by (rule submitted_llm_parse)
  show "chunks_processed (parse_structured_filing lib anthropic_client filing_content url)
       = length (split_content_intelligently
                   (preprocess_filing_content (get_text lib filing_content)) 50000)"
    by (simp add: parse_structured_filing_def Let_def)
  show "chunks_processed (parse_structured_filing plain_lib (Some client) seven_chunk_filing url) = 7"
    by (rule chunks_processed_seven)
  show "submitted (llm_parse_structure_pydantic plain_lib client seven_chunk_filing url
         (split_content_intelligently (preprocess_filing_content seven_chunk_filing) 50000))
       = [1, 2, 3, 4, 5, 6]"
    by (simp only: submitted_llm_parse preprocess_seven split_seven length_replicate six_numbers)
qed


section \<open>Keyword search returns the matching entries\<close>









section \<open>The table of the scenario\<close>

text \<open>
  C8. The table with the rows \<^verbatim>\<open>Year | Premium | Loss Ratio\<close>, \<^verbatim>\<open>2023 | $100M | 62%\<close>,
  \<^verbatim>\<open>2022 | $95M | 64%\<close> serialises to these three lines; its text has five financial
  keywords (among them \<^verbatim>\<open>premium\<close>, \<^verbatim>\<open>ratio\<close> and the currency symbol) and is accepted
  by the meaningful-table filter; the section-relevance filter accepts it for
  \<^verbatim>\<open>item_7\<close> and rejects it for \<^verbatim>\<open>item_1a\<close>, none of whose keywords it contains.
\<close>

theorem C8_scenario_table:
  "extract_table_text [[''Year'', ''Premium'', ''Loss Ratio''],
                       [''2023'', ''$100M'', ''62%''],
                       [''2022'', ''$95M'', ''64%'']]
     = ''Year | Premium | Loss Ratio'' @ [NL] @ ''2023 | $100M | 62%'' @ [NL] @ ''2022 | $95M | 64%''
   \<and> filter (\<lambda>k. sublist k (lower (''Year | Premium | Loss Ratio'' @ [NL] @ ''2023 | $100M | 62%'' @ [NL] @ ''2022 | $95M | 64%'')))
        financial_keywords = [''$'', ''%'', ''loss'', ''ratio'', ''premium'']
   \<and> is_meaningful_table
        (''Year | Premium | Loss Ratio'' @ [NL] @ ''2023 | $100M | 62%'' @ [NL] @ ''2022 | $95M | 64%'')
   \<and> is_section_relevant_table
        (''Year | Premium | Loss Ratio'' @ [NL] @ ''2023 | $100M | 62%'' @ [NL] @ ''2022 | $95M | 64%'')
        ''item_7''
   \<and> count_in [''risk'', ''factor'', ''exposure'', ''impact'']
        (lower (''Year | Premium | Loss Ratio'' @ [NL] @ ''2023 | $100M | 62%'' @ [NL] @ ''2022 | $95M | 64%'')) = 0
   \<and> \<not> is_section_relevant_table
        (''Year | Premium | Loss Ratio'' @ [NL] @ ''2023 | $100M | 62%'' @ [NL] @ ''2022 | $95M | 64%'')
        ''item_1a''"
  by code_simp

end
